theory Spec2Isabelle
  imports Main "HOL-Library.Word"
begin

section \<open>The DailyCheckIn contract\<close>

text \<open>
  A shallow embedding of \<^verbatim>\<open>contracts/DailyCheckIn.sol\<close> (Solidity 0.8.24).
  Every external function of the contract is a HOL function from the caller's
  environment and the contract's state to either an error (the call reverts) or the
  new state together with the externally visible effects of the call, in source order.

  \<^item> \<^verbatim>\<open>uint256\<close> is \<open>256 word\<close>, \<^verbatim>\<open>address\<close> is \<open>160 word\<close>. Solidity 0.8 checks
    \<^verbatim>\<open>+\<close> and \<^verbatim>\<open>-\<close>: an overflow is \<^verbatim>\<open>Panic(0x11)\<close>, written out in
    \<open>checked_add\<close> and \<open>checked_sub\<close>.
  \<^item> A \<^verbatim>\<open>mapping(address => UserCheckIn)\<close> is a total function: a key never written
    reads as the all-zero struct.
  \<^item> The ether held by the contract (\<^verbatim>\<open>address(this).balance\<close>) is kept by the
    EVM, not by a storage variable; it is the field \<open>balance\<close>, a natural number of wei.
  \<^item> A low-level \<^verbatim>\<open>call{value: v}("")\<close> hands all gas to code of the recipient, which is
    not part of the repository and which may call back into the contract before it
    returns. What the recipient does is an input: a \<open>transfer\<close> for one function, a
    \<open>recipient\<close> (the calls it makes and whether it returns success) for a whole call.
    The state and the effects a call returns include those of the recipient's calls.
  \<^item> A revert undoes every effect of the call: a reverted call yields \<open>Inl\<close> and no state.
\<close>

type_synonym uint256 = "256 word"
type_synonym address = "160 word"

text \<open>
  Modelled from the spec: the FHEVM library \<^verbatim>\<open>@fhevm/solidity/lib/FHE.sol\<close> is a
  third-party dependency (the glossary: an opaque runtime providing encrypted on-chain
  integers). An \<^verbatim>\<open>euint32\<close> is represented by the 32-bit value it encrypts:
  \<^verbatim>\<open>FHE.asEuint32\<close> encrypts a constant, \<^verbatim>\<open>FHE.add\<close> adds modulo \<open>2 ^ 32\<close>, and a handle
  never written stands for 0. The grants \<^verbatim>\<open>FHE.allowThis\<close> and \<^verbatim>\<open>FHE.allow\<close> change the
  access-control list of the runtime, not the contract: they are recorded as effects.
\<close>

type_synonym euint32 = "32 word"

definition FHE_asEuint32 :: "32 word \<Rightarrow> euint32" where
  "FHE_asEuint32 v = v"

definition FHE_add :: "euint32 \<Rightarrow> euint32 \<Rightarrow> euint32" where
  "FHE_add a b = a + b"

subsection \<open>State\<close>

record UserCheckIn =
  encryptedDays :: euint32
  lastCheckInTime :: uint256
  lastClaimedDay :: uint256

record state =
  owner :: address
  userCheckIns :: "address \<Rightarrow> UserCheckIn"
  rewardPool :: uint256
  balance :: nat

definition REWARD_AMOUNT :: uint256 where
  "REWARD_AMOUNT = 100000000000000"

definition CHECK_IN_INTERVAL :: uint256 where
  "CHECK_IN_INTERVAL = 86400"

definition REWARD_INTERVAL :: uint256 where
  "REWARD_INTERVAL = 2"

subsection \<open>Events, effects and errors\<close>

datatype event =
  CheckedIn address uint256
| RewardClaimed address uint256 uint256
| CheckInReset address uint256
| RewardPoolDeposited address uint256
| RewardPoolWithdrawn address uint256

datatype effect =
  Emit event
| Send address nat
| AllowThis
| Allow address

datatype error =
  Revert string
| Panic nat

type_synonym result = "error + state \<times> effect list"

definition checked_add :: "uint256 \<Rightarrow> uint256 \<Rightarrow> error + uint256" where
  "checked_add a b = (if unat a + unat b < 2 ^ 256 then Inr (a + b) else Inl (Panic 17))"

definition checked_sub :: "uint256 \<Rightarrow> uint256 \<Rightarrow> error + uint256" where
  "checked_sub a b = (if unat b \<le> unat a then Inr (a - b) else Inl (Panic 17))"

text \<open>
  The code that runs at the recipient of a transfer, as the contract sees it: from the
  state of the contract when the recipient gets control (the ether already taken from
  the balance) to the state when it returns and the effects of what it did to the
  contract meanwhile; \<open>None\<close> when it fails.
\<close>

type_synonym transfer = "state \<Rightarrow> (state \<times> effect list) option"

text \<open>
  \<^verbatim>\<open>(bool success, ) = payable(to).call{value: v}("")\<close>: \<open>None\<close> is \<^verbatim>\<open>success == false\<close>.
  The call fails without running the recipient when the contract holds less than \<open>v\<close>.
\<close>

definition send :: "transfer \<Rightarrow> nat \<Rightarrow> state \<Rightarrow> (state \<times> effect list) option" where
  "send recipient v s =
     (if v \<le> balance s then recipient (s\<lparr>balance := balance s - v\<rparr>) else None)"

subsection \<open>Constructor\<close>

text \<open>
  \<open>held\<close> is the ether the address holds before the deployment; \<open>msg.value\<close> is added
  to it by the EVM.
\<close>

definition zeroUser :: UserCheckIn where
  "zeroUser = \<lparr>encryptedDays = 0, lastCheckInTime = 0, lastClaimedDay = 0\<rparr>"

definition constructor :: "address \<Rightarrow> uint256 \<Rightarrow> nat \<Rightarrow> state \<times> effect list" where
  "constructor sender msg_value held =
     (\<lparr>owner = sender, userCheckIns = (\<lambda>_. zeroUser), rewardPool = msg_value,
       balance = held + unat msg_value\<rparr>,
      [Emit (RewardPoolDeposited sender msg_value)])"

subsection \<open>Core functions\<close>

definition checkIn :: "address \<Rightarrow> uint256 \<Rightarrow> state \<Rightarrow> result" where
  "checkIn sender timestamp s =
     (let userCheckIn = userCheckIns s sender in
      case checked_add (lastCheckInTime userCheckIn) CHECK_IN_INTERVAL of
        Inl e \<Rightarrow> Inl e
      | Inr next \<Rightarrow>
          if \<not> next \<le> timestamp then Inl (Revert ''Already checked in today'')
          else
            (case checked_add (lastCheckInTime userCheckIn) (CHECK_IN_INTERVAL * 2) of
               Inl e \<Rightarrow> Inl e
             | Inr limit \<Rightarrow>
                let (u1, reset) =
                      (if limit < timestamp
                       then (userCheckIn\<lparr>encryptedDays := FHE_asEuint32 0, lastClaimedDay := 0\<rparr>,
                             [Emit (CheckInReset sender timestamp)])
                       else (userCheckIn, []));
                    one = FHE_asEuint32 1;
                    u2 = u1\<lparr>encryptedDays := FHE_add (encryptedDays u1) one\<rparr>;
                    u3 = u2\<lparr>lastCheckInTime := timestamp\<rparr>
                in Inr (s\<lparr>userCheckIns := (userCheckIns s)(sender := u3)\<rparr>,
                        reset @ [AllowThis, Allow sender, Emit (CheckedIn sender timestamp)])))"

definition resetCheckIn :: "address \<Rightarrow> uint256 \<Rightarrow> state \<Rightarrow> result" where
  "resetCheckIn sender timestamp s =
     (let userCheckIn = userCheckIns s sender;
          u1 = userCheckIn\<lparr>encryptedDays := FHE_asEuint32 0\<rparr>;
          u2 = u1\<lparr>lastCheckInTime := 0\<rparr>;
          u3 = u2\<lparr>lastClaimedDay := 0\<rparr>
      in Inr (s\<lparr>userCheckIns := (userCheckIns s)(sender := u3)\<rparr>,
              [Emit (CheckInReset sender timestamp)]))"

definition claimReward :: "address \<Rightarrow> transfer \<Rightarrow> uint256 \<Rightarrow> state \<Rightarrow> result" where
  "claimReward sender recipient currentDay s =
     (let userCheckIn = userCheckIns s sender in
      if \<not> currentDay mod REWARD_INTERVAL = 1 then Inl (Revert ''Not eligible for reward'')
      else if \<not> lastClaimedDay userCheckIn < currentDay
        then Inl (Revert ''Reward already claimed for this milestone'')
      else if \<not> REWARD_AMOUNT \<le> rewardPool s then Inl (Revert ''Insufficient reward pool'')
      else
        let s1 = s\<lparr>userCheckIns :=
                     (userCheckIns s)(sender := userCheckIn\<lparr>lastClaimedDay := currentDay\<rparr>)\<rparr>
        in case checked_sub (rewardPool s1) REWARD_AMOUNT of
             Inl e \<Rightarrow> Inl e
           | Inr pool \<Rightarrow>
               let s2 = s1\<lparr>rewardPool := pool\<rparr>
               in (case send recipient (unat REWARD_AMOUNT) s2 of
                     None \<Rightarrow> Inl (Revert ''Reward transfer failed'')
                   | Some (s3, nested) \<Rightarrow>
                       Inr (s3, Send sender (unat REWARD_AMOUNT) # nested
                                  @ [Emit (RewardClaimed sender currentDay REWARD_AMOUNT)])))"

subsection \<open>Query functions\<close>

definition getUserEncryptedDays :: "address \<Rightarrow> state \<Rightarrow> euint32" where
  "getUserEncryptedDays user s = encryptedDays (userCheckIns s user)"

definition getUserLastCheckInTime :: "address \<Rightarrow> state \<Rightarrow> uint256" where
  "getUserLastCheckInTime user s = lastCheckInTime (userCheckIns s user)"

definition getUserLastClaimedDay :: "address \<Rightarrow> state \<Rightarrow> uint256" where
  "getUserLastClaimedDay user s = lastClaimedDay (userCheckIns s user)"

definition canCheckIn :: "uint256 \<Rightarrow> address \<Rightarrow> state \<Rightarrow> error + bool" where
  "canCheckIn timestamp user s =
     (case checked_add (lastCheckInTime (userCheckIns s user)) CHECK_IN_INTERVAL of
        Inl e \<Rightarrow> Inl e
      | Inr next \<Rightarrow> Inr (next \<le> timestamp))"

definition getNextCheckInTime :: "uint256 \<Rightarrow> address \<Rightarrow> state \<Rightarrow> error + uint256" where
  "getNextCheckInTime timestamp user s =
     (if lastCheckInTime (userCheckIns s user) = 0 then Inr timestamp
      else checked_add (lastCheckInTime (userCheckIns s user)) CHECK_IN_INTERVAL)"

definition getContractBalance :: "state \<Rightarrow> nat" where
  "getContractBalance s = balance s"

subsection \<open>Admin functions\<close>

text \<open>
  The functions below that are \<^verbatim>\<open>payable\<close> are given the state in which the EVM has
  already added \<^verbatim>\<open>msg.value\<close> to the contract's balance (see \<open>dispatch\<close>). The two
  withdrawals send to the \<open>owner\<close> read before the external call and name in their
  event the \<open>owner\<close> read after it.
\<close>

definition onlyOwner :: "address \<Rightarrow> state \<Rightarrow> result \<Rightarrow> result" where
  "onlyOwner sender s body =
     (if \<not> sender = owner s then Inl (Revert ''Only owner can call this'') else body)"

definition depositRewardPool :: "address \<Rightarrow> uint256 \<Rightarrow> state \<Rightarrow> result" where
  "depositRewardPool sender msg_value s =
     (if \<not> 0 < msg_value then Inl (Revert ''Deposit amount must be greater than 0'')
      else case checked_add (rewardPool s) msg_value of
             Inl e \<Rightarrow> Inl e
           | Inr pool \<Rightarrow>
               Inr (s\<lparr>rewardPool := pool\<rparr>, [Emit (RewardPoolDeposited sender msg_value)]))"

definition withdrawRewardPool :: "address \<Rightarrow> transfer \<Rightarrow> uint256 \<Rightarrow> state \<Rightarrow> result" where
  "withdrawRewardPool sender recipient amount s =
     onlyOwner sender s
       (if \<not> amount \<le> rewardPool s then Inl (Revert ''Insufficient balance in reward pool'')
        else case checked_sub (rewardPool s) amount of
               Inl e \<Rightarrow> Inl e
             | Inr pool \<Rightarrow>
                 let s1 = s\<lparr>rewardPool := pool\<rparr>
                 in (case send recipient (unat amount) s1 of
                       None \<Rightarrow> Inl (Revert ''Withdrawal failed'')
                     | Some (s2, nested) \<Rightarrow>
                         Inr (s2, Send (owner s1) (unat amount) # nested
                                    @ [Emit (RewardPoolWithdrawn (owner s2) amount)])))"

definition emergencyWithdraw :: "address \<Rightarrow> transfer \<Rightarrow> state \<Rightarrow> result" where
  "emergencyWithdraw sender recipient s =
     onlyOwner sender s
       (let bal = balance s;
            s1 = s\<lparr>rewardPool := 0\<rparr>
        in case send recipient bal s1 of
             None \<Rightarrow> Inl (Revert ''Emergency withdrawal failed'')
           | Some (s2, nested) \<Rightarrow>
               Inr (s2, Send (owner s1) bal # nested
                          @ [Emit (RewardPoolWithdrawn (owner s2) (of_nat bal))]))"

definition transferOwnership :: "address \<Rightarrow> address \<Rightarrow> state \<Rightarrow> result" where
  "transferOwnership sender newOwner s =
     onlyOwner sender s
       (if \<not> newOwner \<noteq> 0 then Inl (Revert ''Invalid new owner address'')
        else Inr (s\<lparr>owner := newOwner\<rparr>, []))"

subsection \<open>Receive ETH\<close>

definition receive :: "address \<Rightarrow> uint256 \<Rightarrow> state \<Rightarrow> result" where
  "receive sender msg_value s =
     (case checked_add (rewardPool s) msg_value of
        Inl e \<Rightarrow> Inl e
      | Inr pool \<Rightarrow>
          Inr (s\<lparr>rewardPool := pool\<rparr>, [Emit (RewardPoolDeposited sender msg_value)]))"

definition fallback :: "address \<Rightarrow> uint256 \<Rightarrow> state \<Rightarrow> result" where
  "fallback sender msg_value s =
     (case checked_add (rewardPool s) msg_value of
        Inl e \<Rightarrow> Inl e
      | Inr pool \<Rightarrow>
          Inr (s\<lparr>rewardPool := pool\<rparr>, [Emit (RewardPoolDeposited sender msg_value)]))"

subsection \<open>The external surface\<close>

text \<open>
  Everything the compiled contract answers to: the seven state-changing functions,
  \<^verbatim>\<open>receive\<close> (plain ether, empty calldata), \<^verbatim>\<open>fallback\<close> (any other calldata), the
  view functions and the getters the compiler generates for \<^verbatim>\<open>public\<close> variables.
\<close>

datatype view_call =
  GetUserEncryptedDays address
| GetUserLastCheckInTime address
| GetUserLastClaimedDay address
| CanCheckIn address
| GetNextCheckInTime address
| GetContractBalance
| Get_owner
| Get_REWARD_AMOUNT
| Get_CHECK_IN_INTERVAL
| Get_REWARD_INTERVAL
| Get_userCheckIns address
| Get_rewardPool

datatype call =
  CheckIn
| ResetCheckIn
| ClaimReward uint256
| DepositRewardPool
| WithdrawRewardPool uint256
| EmergencyWithdraw
| TransferOwnership address
| Receive
| Fallback
| View view_call

datatype retval =
  Euint32 euint32
| Uint256 uint256
| Bool bool
| Address address
| Struct euint32 uint256 uint256

fun view_result :: "uint256 \<Rightarrow> view_call \<Rightarrow> state \<Rightarrow> error + retval" where
  "view_result ts (GetUserEncryptedDays user) s = Inr (Euint32 (getUserEncryptedDays user s))"
| "view_result ts (GetUserLastCheckInTime user) s = Inr (Uint256 (getUserLastCheckInTime user s))"
| "view_result ts (GetUserLastClaimedDay user) s = Inr (Uint256 (getUserLastClaimedDay user s))"
| "view_result ts (CanCheckIn user) s = map_sum id Bool (canCheckIn ts user s)"
| "view_result ts (GetNextCheckInTime user) s = map_sum id Uint256 (getNextCheckInTime ts user s)"
| "view_result ts GetContractBalance s = Inr (Uint256 (of_nat (getContractBalance s)))"
| "view_result ts Get_owner s = Inr (Address (owner s))"
| "view_result ts Get_REWARD_AMOUNT s = Inr (Uint256 REWARD_AMOUNT)"
| "view_result ts Get_CHECK_IN_INTERVAL s = Inr (Uint256 CHECK_IN_INTERVAL)"
| "view_result ts Get_REWARD_INTERVAL s = Inr (Uint256 REWARD_INTERVAL)"
| "view_result ts (Get_userCheckIns user) s =
     Inr (Struct (encryptedDays (userCheckIns s user)) (lastCheckInTime (userCheckIns s user))
            (lastClaimedDay (userCheckIns s user)))"
| "view_result ts Get_rewardPool s = Inr (Uint256 (rewardPool s))"

text \<open>
  The code at an address that receives ether from the contract: the calls it makes
  into the contract while it holds control (each with its caller, its \<^verbatim>\<open>msg.value\<close>, the
  function called, and the code at the address that function pays), in order, and
  whether it returns success in the end. A call of the list that reverts is caught by
  the recipient; a recipient that lets it through is one that does not return success.
  Code that chooses its calls by what it finds makes, in each run, one such list of
  calls.
\<close>

datatype recipient =
  Recipient "(address \<times> uint256 \<times> call \<times> recipient) list" bool

text \<open>
  The environment of one call: \<^verbatim>\<open>msg.sender\<close>, \<^verbatim>\<open>msg.value\<close>, \<^verbatim>\<open>block.timestamp\<close>, and
  the code at the address an outgoing transfer of the call goes to.
\<close>

record env =
  msg_sender :: address
  msg_value :: uint256
  block_timestamp :: uint256
  recipient :: recipient

fun payable :: "call \<Rightarrow> bool" where
  "payable DepositRewardPool = True"
| "payable Receive = True"
| "payable Fallback = True"
| "payable _ = False"

text \<open>
  The function selector. For a \<^verbatim>\<open>payable\<close> function the EVM adds \<^verbatim>\<open>msg.value\<close> to the
  contract's balance before the body runs.
\<close>

definition credit :: "uint256 \<Rightarrow> state \<Rightarrow> state" where
  "credit v s = s\<lparr>balance := balance s + unat v\<rparr>"

fun dispatch :: "env \<Rightarrow> transfer \<Rightarrow> call \<Rightarrow> state \<Rightarrow> result" where
  "dispatch e t CheckIn s = checkIn (msg_sender e) (block_timestamp e) s"
| "dispatch e t ResetCheckIn s = resetCheckIn (msg_sender e) (block_timestamp e) s"
| "dispatch e t (ClaimReward currentDay) s = claimReward (msg_sender e) t currentDay s"
| "dispatch e t DepositRewardPool s =
     depositRewardPool (msg_sender e) (msg_value e) (credit (msg_value e) s)"
| "dispatch e t (WithdrawRewardPool amount) s = withdrawRewardPool (msg_sender e) t amount s"
| "dispatch e t EmergencyWithdraw s = emergencyWithdraw (msg_sender e) t s"
| "dispatch e t (TransferOwnership newOwner) s = transferOwnership (msg_sender e) newOwner s"
| "dispatch e t Receive s = receive (msg_sender e) (msg_value e) (credit (msg_value e) s)"
| "dispatch e t Fallback s = fallback (msg_sender e) (msg_value e) (credit (msg_value e) s)"
| "dispatch e t (View v) s =
     (case view_result (block_timestamp e) v s of Inl err \<Rightarrow> Inl err | Inr _ \<Rightarrow> Inr (s, []))"

text \<open>
  One call of the contract. A function that is not \<^verbatim>\<open>payable\<close> reverts, with no
  message, when ether comes with the call. The transfer of a function that pays runs
  the recipient: its calls into the contract are calls like this one, in the same
  block, each kept when it returns and undone when it reverts; when the recipient
  does not return success, the transfer fails.
\<close>

function execute :: "env \<Rightarrow> call \<Rightarrow> state \<Rightarrow> result"
  and recipient_runs :: "uint256 \<Rightarrow> recipient \<Rightarrow> transfer"
  and calls_back :: "uint256 \<Rightarrow> (address \<times> uint256 \<times> call \<times> recipient) list \<Rightarrow> state
                       \<Rightarrow> state \<times> effect list"
where
  "execute e c s =
     (if \<not> payable c \<and> msg_value e \<noteq> 0 then Inl (Revert [])
      else dispatch e (recipient_runs (block_timestamp e) (recipient e)) c s)"
| "recipient_runs timestamp (Recipient calls ok) s =
     (if ok then Some (calls_back timestamp calls s) else None)"
| "calls_back timestamp [] s = (s, [])"
| "calls_back timestamp ((sender, v, c, r) # calls) s =
     (case execute \<lparr>msg_sender = sender, msg_value = v, block_timestamp = timestamp,
                    recipient = r\<rparr> c s of
        Inl err \<Rightarrow> calls_back timestamp calls s
      | Inr (s', fx) \<Rightarrow>
          (case calls_back timestamp calls s' of (s'', fx') \<Rightarrow> (s'', fx @ fx')))"
  by pat_completeness auto
termination
  by (relation "measure (\<lambda>x. case x of
          Inl (e, c, s) \<Rightarrow> 2 * size (recipient e) + 1
        | Inr (Inl (timestamp, r, s)) \<Rightarrow> 2 * size r
        | Inr (Inr (timestamp, calls, s)) \<Rightarrow> 2 * size (Recipient calls True) - 1)")
    auto

text \<open>The state the chain keeps after the call: the old one when the call reverted.\<close>

definition transact :: "env \<Rightarrow> call \<Rightarrow> state \<Rightarrow> state" where
  "transact e c s = (case execute e c s of Inl err \<Rightarrow> s | Inr (s', fx) \<Rightarrow> s')"

text \<open>
  The states of a deployed contract: the one the constructor leaves, and from there any
  call by anyone at any time, with any recipient of its transfer. Ether can also reach
  the contract without a call (the beneficiary of a \<^verbatim>\<open>selfdestruct\<close> or of block
  rewards): \<open>forced\<close>.
\<close>

inductive reachable :: "state \<Rightarrow> bool" where
  deployed: "reachable (fst (constructor sender v held))"
| called: "reachable s \<Longrightarrow> reachable (transact e c s)"
| forced: "reachable s \<Longrightarrow> reachable (s\<lparr>balance := balance s + n\<rparr>)"

text \<open>The storage of the contract: its three state variables.\<close>

definition storage :: "state \<Rightarrow> address \<times> (address \<Rightarrow> UserCheckIn) \<times> uint256" where
  "storage s = (owner s, userCheckIns s, rewardPool s)"

subsection \<open>Notions used by the properties\<close>

text \<open>
  The seven functions the interface description lists: every external function that
  is neither a view, nor \<^verbatim>\<open>receive\<close>, nor \<^verbatim>\<open>fallback\<close>.
\<close>

fun listed_entry_point :: "call \<Rightarrow> bool" where
  "listed_entry_point CheckIn = True"
| "listed_entry_point ResetCheckIn = True"
| "listed_entry_point (ClaimReward currentDay) = True"
| "listed_entry_point DepositRewardPool = True"
| "listed_entry_point (WithdrawRewardPool amount) = True"
| "listed_entry_point EmergencyWithdraw = True"
| "listed_entry_point (TransferOwnership newOwner) = True"
| "listed_entry_point Receive = False"
| "listed_entry_point Fallback = False"
| "listed_entry_point (View v) = False"

text \<open>
  The second state is reached from the first by calls, one after the other, whose
  recipients take the ether they are sent and make no call of their own.
\<close>

inductive plain_calls :: "state \<Rightarrow> state \<Rightarrow> bool" where
  none: "plain_calls s s"
| more: "plain_calls s s1 \<Longrightarrow> recipient e = Recipient [] True \<Longrightarrow>
           plain_calls s (transact e c s1)"

text \<open>The three functions that transfer ether out of the contract.\<close>

fun pays_out :: "call \<Rightarrow> bool" where
  "pays_out (ClaimReward currentDay) = True"
| "pays_out (WithdrawRewardPool amount) = True"
| "pays_out EmergencyWithdraw = True"
| "pays_out _ = False"




text \<open>
  Every call into the contract that a recipient makes while it holds control, with
  its caller: its own calls, and those of the recipients these calls pay.
\<close>

fun nested_calls :: "recipient \<Rightarrow> (address \<times> call) list"
  and nested_calls_list :: "(address \<times> uint256 \<times> call \<times> recipient) list \<Rightarrow> (address \<times> call) list"
where
  "nested_calls (Recipient calls ok) = nested_calls_list calls"
| "nested_calls_list [] = []"
| "nested_calls_list ((sender, v, c, r) # calls) =
     (sender, c) # nested_calls r @ nested_calls_list calls"

text \<open>
  The second state differs from the first only in what the calls of the list write:
  \<open>owner\<close> only if the owner calls \<open>transferOwnership\<close>, the struct of an address only if
  that address calls \<open>checkIn\<close>, \<open>resetCheckIn\<close> or \<open>claimReward\<close>, and \<open>rewardPool\<close> only if
  one of the six functions that write it is called.
\<close>

fun writes_rewardPool :: "call \<Rightarrow> bool" where
  "writes_rewardPool (ClaimReward currentDay) = True"
| "writes_rewardPool DepositRewardPool = True"
| "writes_rewardPool (WithdrawRewardPool amount) = True"
| "writes_rewardPool EmergencyWithdraw = True"
| "writes_rewardPool Receive = True"
| "writes_rewardPool Fallback = True"
| "writes_rewardPool _ = False"

definition written_by :: "(address \<times> call) list \<Rightarrow> state \<Rightarrow> state \<Rightarrow> bool" where
  "written_by cs s s' \<longleftrightarrow>
     (owner s' \<noteq> owner s \<longrightarrow> (\<exists>newOwner. (owner s, TransferOwnership newOwner) \<in> set cs))
   \<and> (\<forall>user. userCheckIns s' user \<noteq> userCheckIns s user \<longrightarrow>
          (user, CheckIn) \<in> set cs \<or> (user, ResetCheckIn) \<in> set cs
          \<or> (\<exists>currentDay. (user, ClaimReward currentDay) \<in> set cs))
   \<and> (rewardPool s' \<noteq> rewardPool s \<longrightarrow>
          (\<exists>sender c. (sender, c) \<in> set cs \<and> writes_rewardPool c))"

subsection \<open>A sample history\<close>

text \<open>
  Address 1 deploys the contract with 0.001 ether. Address 5 checks in on two
  consecutive days (14 and 15 November 2023, in Unix time), which makes a streak of 2.
  The callers of \<open>sample_env\<close> take the ether they are sent and do nothing else.
\<close>

definition sample_env :: "address \<Rightarrow> uint256 \<Rightarrow> env" where
  "sample_env sender timestamp =
     \<lparr>msg_sender = sender, msg_value = 0, block_timestamp = timestamp,
      recipient = Recipient [] True\<rparr>"

definition sample_deployed :: state where
  "sample_deployed = fst (constructor 1 1000000000000000 0)"

definition sample_streak :: state where
  "sample_streak =
     transact (sample_env 5 1700086400) CheckIn
       (transact (sample_env 5 1700000000) CheckIn sample_deployed)"

text \<open>
  Address 9 is a contract whose \<^verbatim>\<open>receive\<close> function calls \<^verbatim>\<open>claimReward(3)\<close> when it is
  first paid, and takes the second payment as it comes.
\<close>

definition sample_claims_again :: env where
  "sample_claims_again =
     \<lparr>msg_sender = 9, msg_value = 0, block_timestamp = 1700259201,
      recipient = Recipient [(9, 0, ClaimReward 3, Recipient [] True)] True\<rparr>"
section \<open>Properties\<close>

subsection \<open>Checked arithmetic and the constants\<close>

lemma checked_add_Inr:
  "unat a + unat b < 2 ^ 256 \<Longrightarrow> checked_add a b = Inr (a + b) \<and> unat (a + b) = unat a + unat b"
  by (simp add: checked_add_def unat_word_ariths)

lemma checked_add_unat:
  "checked_add a b = Inr c \<Longrightarrow> unat c = unat a + unat b"
  by (auto simp: checked_add_def unat_word_ariths split: if_splits)

lemma checked_sub_unat:
  "checked_sub a b = Inr c \<Longrightarrow> unat c + unat b = unat a"
  by (auto simp: checked_sub_def unat_sub word_le_nat_alt split: if_splits)

lemma unat_CHECK_IN_INTERVAL: "unat CHECK_IN_INTERVAL = 86400"
  by (simp add: CHECK_IN_INTERVAL_def)

lemma unat_CHECK_IN_INTERVAL2: "unat (CHECK_IN_INTERVAL * 2) = 172800"
  by (simp add: CHECK_IN_INTERVAL_def)

lemma unat_REWARD_AMOUNT: "unat REWARD_AMOUNT = 100000000000000"
  by (simp add: REWARD_AMOUNT_def)

subsection \<open>What each function returns\<close>

text \<open>
  A successful \<open>checkIn\<close>: the guard held, the additions did not overflow, and only the
  caller's struct changed.
\<close>

lemma checkIn_Inr:
  assumes "checkIn sender timestamp s = Inr (s', fx)"
  shows "unat (lastCheckInTime (userCheckIns s sender)) + 86400 \<le> unat timestamp"
    and "unat (lastCheckInTime (userCheckIns s sender)) + 172800 < 2 ^ 256"
    and "encryptedDays (userCheckIns s' sender) =
           (if unat (lastCheckInTime (userCheckIns s sender)) + 172800 < unat timestamp then 1
            else encryptedDays (userCheckIns s sender) + 1)"
    and "lastClaimedDay (userCheckIns s' sender) =
           (if unat (lastCheckInTime (userCheckIns s sender)) + 172800 < unat timestamp then 0
            else lastClaimedDay (userCheckIns s sender))"
    and "lastCheckInTime (userCheckIns s' sender) = timestamp"
    and "a \<noteq> sender \<Longrightarrow> userCheckIns s' a = userCheckIns s a"
    and "owner s' = owner s" and "rewardPool s' = rewardPool s" and "balance s' = balance s"
proof -
  let ?u = "userCheckIns s sender"
  from assms obtain nxt where nxt: "checked_add (lastCheckInTime ?u) CHECK_IN_INTERVAL = Inr nxt"
    by (auto simp: checkIn_def Let_def split: sum.splits)
  from assms nxt have le: "nxt \<le> timestamp"
    by (auto simp: checkIn_def Let_def split: sum.splits if_splits)
  from assms nxt le obtain lim where
    lim: "checked_add (lastCheckInTime ?u) (CHECK_IN_INTERVAL * 2) = Inr lim"
    by (auto simp: checkIn_def Let_def split: sum.splits if_splits)
  from checked_add_unat [OF nxt] have un: "unat nxt = unat (lastCheckInTime ?u) + 86400"
    by (simp add: unat_CHECK_IN_INTERVAL)
  from checked_add_unat [OF lim] have ul: "unat lim = unat (lastCheckInTime ?u) + 172800"
    by (simp add: unat_CHECK_IN_INTERVAL2)
  from le un show "unat (lastCheckInTime ?u) + 86400 \<le> unat timestamp"
    by (simp add: word_le_nat_alt)
  from ul show "unat (lastCheckInTime ?u) + 172800 < 2 ^ 256"
    using unsigned_less [of lim, where 'a = nat] by simp
  have lt: "lim < timestamp \<longleftrightarrow> unat (lastCheckInTime ?u) + 172800 < unat timestamp"
    using ul by (simp add: word_less_nat_alt)
  note facts = assms nxt le lim lt
  from facts show "encryptedDays (userCheckIns s' sender) =
           (if unat (lastCheckInTime (userCheckIns s sender)) + 172800 < unat timestamp then 1
            else encryptedDays (userCheckIns s sender) + 1)"
    by (auto simp: checkIn_def Let_def FHE_add_def FHE_asEuint32_def split: if_splits)
  from facts show "lastClaimedDay (userCheckIns s' sender) =
           (if unat (lastCheckInTime (userCheckIns s sender)) + 172800 < unat timestamp then 0
            else lastClaimedDay (userCheckIns s sender))"
    by (auto simp: checkIn_def Let_def split: if_splits)
  from facts show "lastCheckInTime (userCheckIns s' sender) = timestamp"
    by (auto simp: checkIn_def Let_def split: if_splits)
  from facts show "a \<noteq> sender \<Longrightarrow> userCheckIns s' a = userCheckIns s a"
    by (auto simp: checkIn_def Let_def split: if_splits)
  from facts show "owner s' = owner s" and "rewardPool s' = rewardPool s"
    and "balance s' = balance s"
    by (auto simp: checkIn_def Let_def split: if_splits)
qed

lemma checkIn_succeeds:
  assumes "unat (lastCheckInTime (userCheckIns s sender)) + 86400 \<le> unat timestamp"
    and "unat (lastCheckInTime (userCheckIns s sender)) + 172800 < 2 ^ 256"
  shows "\<exists>r. checkIn sender timestamp s = Inr r"
proof -
  let ?last = "lastCheckInTime (userCheckIns s sender)"
  from assms have a1: "unat ?last + unat CHECK_IN_INTERVAL < 2 ^ 256"
    by (simp add: unat_CHECK_IN_INTERVAL)
  from assms have a2: "unat ?last + unat (CHECK_IN_INTERVAL * 2) < 2 ^ 256"
    by (simp add: unat_CHECK_IN_INTERVAL2)
  note n1 = checked_add_Inr [OF a1] and n2 = checked_add_Inr [OF a2]
  have le: "?last + CHECK_IN_INTERVAL \<le> timestamp"
    using n1 assms(1) by (simp add: word_le_nat_alt unat_CHECK_IN_INTERVAL)
  show ?thesis
    using n1 n2 le by (simp add: checkIn_def Let_def split: prod.splits)
qed

lemma resetCheckIn_Inr:
  assumes "resetCheckIn sender timestamp s = Inr (s', fx)"
  shows "userCheckIns s' sender = (userCheckIns s sender)
           \<lparr>encryptedDays := 0, lastCheckInTime := 0, lastClaimedDay := 0\<rparr>"
    and "a \<noteq> sender \<Longrightarrow> userCheckIns s' a = userCheckIns s a"
    and "owner s' = owner s" and "rewardPool s' = rewardPool s" and "balance s' = balance s"
  using assms by (auto simp: resetCheckIn_def Let_def FHE_asEuint32_def)

text \<open>
  A successful \<open>claimReward\<close>: the guards held, the function wrote \<open>lastClaimedDay\<close>,
  took the reward from the pool and from the balance, and handed that state to the
  recipient, which returned success.
\<close>

lemma claimReward_Inr:
  assumes "claimReward sender t currentDay s = Inr (s', fx)"
  obtains nested where
    "currentDay mod 2 = 1" and "lastClaimedDay (userCheckIns s sender) < currentDay"
    and "REWARD_AMOUNT \<le> rewardPool s" and "100000000000000 \<le> balance s"
    and "unat (rewardPool s - REWARD_AMOUNT) + 100000000000000 = unat (rewardPool s)"
    and "t (s\<lparr>userCheckIns :=
                 (userCheckIns s)(sender := (userCheckIns s sender)\<lparr>lastClaimedDay := currentDay\<rparr>),
               rewardPool := rewardPool s - REWARD_AMOUNT,
               balance := balance s - 100000000000000\<rparr>) = Some (s', nested)"
    and "fx = Send sender 100000000000000 # nested
                @ [Emit (RewardClaimed sender currentDay REWARD_AMOUNT)]"
proof -
  from assms have g: "currentDay mod REWARD_INTERVAL = 1"
    "lastClaimedDay (userCheckIns s sender) < currentDay" "REWARD_AMOUNT \<le> rewardPool s"
    by (auto simp: claimReward_def Let_def split: if_splits)
  from g(3) have sub: "checked_sub (rewardPool s) REWARD_AMOUNT = Inr (rewardPool s - REWARD_AMOUNT)"
    by (simp add: checked_sub_def word_le_nat_alt)
  from checked_sub_unat [OF sub]
  have u: "unat (rewardPool s - REWARD_AMOUNT) + 100000000000000 = unat (rewardPool s)"
    by (simp add: unat_REWARD_AMOUNT)
  from assms g sub have bal: "100000000000000 \<le> balance s"
    by (auto simp: claimReward_def Let_def send_def unat_REWARD_AMOUNT
        split: if_splits option.splits)
  from assms g sub bal obtain nested where
    "t (s\<lparr>userCheckIns :=
                 (userCheckIns s)(sender := (userCheckIns s sender)\<lparr>lastClaimedDay := currentDay\<rparr>),
               rewardPool := rewardPool s - REWARD_AMOUNT,
               balance := balance s - 100000000000000\<rparr>) = Some (s', nested)"
    "fx = Send sender 100000000000000 # nested
                @ [Emit (RewardClaimed sender currentDay REWARD_AMOUNT)]"
    by (auto simp: claimReward_def Let_def send_def unat_REWARD_AMOUNT
        split: if_splits option.splits)
  with g u bal show ?thesis
    by (intro that [of nested]) (simp_all add: REWARD_INTERVAL_def)
qed

lemma claimReward_succeeds:
  assumes "currentDay mod 2 = 1" and "lastClaimedDay (userCheckIns s sender) < currentDay"
    and "REWARD_AMOUNT \<le> rewardPool s" and "100000000000000 \<le> balance s"
    and "t (s\<lparr>userCheckIns :=
                 (userCheckIns s)(sender := (userCheckIns s sender)\<lparr>lastClaimedDay := currentDay\<rparr>),
               rewardPool := rewardPool s - REWARD_AMOUNT,
               balance := balance s - 100000000000000\<rparr>) = Some (s', nested)"
  shows "claimReward sender t currentDay s
           = Inr (s', Send sender 100000000000000 # nested
                        @ [Emit (RewardClaimed sender currentDay REWARD_AMOUNT)])"
proof -
  from assms(3) have sub:
    "checked_sub (rewardPool s) REWARD_AMOUNT = Inr (rewardPool s - REWARD_AMOUNT)"
    by (simp add: checked_sub_def word_le_nat_alt)
  with assms show ?thesis
    by (simp add: claimReward_def Let_def send_def REWARD_INTERVAL_def unat_REWARD_AMOUNT)
qed

lemma claimReward_guards:
  assumes "rewardPool s < REWARD_AMOUNT \<or> currentDay mod 2 \<noteq> 1
             \<or> currentDay \<le> lastClaimedDay (userCheckIns s sender)"
  shows "\<exists>msg. claimReward sender t currentDay s = Inl (Revert msg)"
proof -
  have "currentDay mod 2 \<noteq> 1 \<Longrightarrow> ?thesis"
    by (simp add: claimReward_def Let_def REWARD_INTERVAL_def)
  moreover have "currentDay \<le> lastClaimedDay (userCheckIns s sender) \<Longrightarrow> ?thesis"
    by (simp add: claimReward_def Let_def not_less)
  moreover have "rewardPool s < REWARD_AMOUNT \<Longrightarrow> ?thesis"
    by (simp add: claimReward_def Let_def not_le)
  ultimately show ?thesis using assms by blast
qed

lemma depositRewardPool_Inr:
  assumes "depositRewardPool sender v s = Inr (s', fx)"
  shows "unat (rewardPool s') = unat (rewardPool s) + unat v"
    and "userCheckIns s' = userCheckIns s"
    and "owner s' = owner s" and "balance s' = balance s"
    and "0 < v" and "s' = s\<lparr>rewardPool := rewardPool s + v\<rparr>"
    and "fx = [Emit (RewardPoolDeposited sender v)]"
  using assms
  by (auto simp: depositRewardPool_def checked_add_def unat_word_ariths
      split: if_splits sum.splits)

lemma receive_Inr:
  assumes "receive sender v s = Inr (s', fx)"
  shows "unat (rewardPool s') = unat (rewardPool s) + unat v"
    and "userCheckIns s' = userCheckIns s"
    and "owner s' = owner s" and "balance s' = balance s"
    and "s' = s\<lparr>rewardPool := rewardPool s + v\<rparr>"
    and "fx = [Emit (RewardPoolDeposited sender v)]"
  using assms
  by (auto simp: receive_def checked_add_def unat_word_ariths split: if_splits sum.splits)

lemma fallback_Inr:
  assumes "fallback sender v s = Inr (s', fx)"
  shows "unat (rewardPool s') = unat (rewardPool s) + unat v"
    and "userCheckIns s' = userCheckIns s"
    and "owner s' = owner s" and "balance s' = balance s"
    and "s' = s\<lparr>rewardPool := rewardPool s + v\<rparr>"
    and "fx = [Emit (RewardPoolDeposited sender v)]"
  using assms
  by (auto simp: fallback_def checked_add_def unat_word_ariths split: if_splits sum.splits)

text \<open>
  A successful withdrawal: the caller is the owner, the function lowered the pool and
  the balance and handed that state to the recipient, which returned success.
\<close>

lemma withdrawRewardPool_Inr:
  assumes "withdrawRewardPool sender t amount s = Inr (s', fx)"
  obtains nested where
    "sender = owner s" and "amount \<le> rewardPool s" and "unat amount \<le> balance s"
    and "unat (rewardPool s - amount) + unat amount = unat (rewardPool s)"
    and "t (s\<lparr>rewardPool := rewardPool s - amount,
               balance := balance s - unat amount\<rparr>) = Some (s', nested)"
    and "fx = Send (owner s) (unat amount) # nested
                @ [Emit (RewardPoolWithdrawn (owner s') amount)]"
proof -
  from assms have g: "sender = owner s" "amount \<le> rewardPool s"
    by (auto simp: withdrawRewardPool_def onlyOwner_def split: if_splits)
  from g(2) have sub: "checked_sub (rewardPool s) amount = Inr (rewardPool s - amount)"
    by (simp add: checked_sub_def word_le_nat_alt)
  note u = checked_sub_unat [OF sub]
  from assms g sub have bal: "unat amount \<le> balance s"
    by (auto simp: withdrawRewardPool_def onlyOwner_def Let_def send_def
        split: if_splits option.splits)
  from assms g sub bal obtain nested where
    "t (s\<lparr>rewardPool := rewardPool s - amount,
               balance := balance s - unat amount\<rparr>) = Some (s', nested)"
    "fx = Send (owner s) (unat amount) # nested
                @ [Emit (RewardPoolWithdrawn (owner s') amount)]"
    by (auto simp: withdrawRewardPool_def onlyOwner_def Let_def send_def
        split: if_splits option.splits)
  with g u bal show ?thesis
    by (intro that [of nested]) simp_all
qed

lemma withdrawRewardPool_succeeds:
  assumes "amount \<le> rewardPool s" and "unat amount \<le> balance s"
    and "t (s\<lparr>rewardPool := rewardPool s - amount,
               balance := balance s - unat amount\<rparr>) = Some (s', nested)"
  shows "withdrawRewardPool (owner s) t amount s
           = Inr (s', Send (owner s) (unat amount) # nested
                        @ [Emit (RewardPoolWithdrawn (owner s') amount)])"
  using assms
  by (simp add: withdrawRewardPool_def onlyOwner_def send_def Let_def checked_sub_def
      word_le_nat_alt)

lemma emergencyWithdraw_Inr:
  assumes "emergencyWithdraw sender t s = Inr (s', fx)"
  obtains nested where
    "sender = owner s"
    and "t (s\<lparr>rewardPool := 0, balance := 0\<rparr>) = Some (s', nested)"
    and "fx = Send (owner s) (balance s) # nested
                @ [Emit (RewardPoolWithdrawn (owner s') (of_nat (balance s)))]"
proof -
  from assms have g: "sender = owner s"
    by (auto simp: emergencyWithdraw_def onlyOwner_def split: if_splits)
  from assms g obtain nested where
    "t (s\<lparr>rewardPool := 0, balance := 0\<rparr>) = Some (s', nested)"
    "fx = Send (owner s) (balance s) # nested
                @ [Emit (RewardPoolWithdrawn (owner s') (of_nat (balance s)))]"
    by (auto simp: emergencyWithdraw_def onlyOwner_def Let_def send_def
        split: if_splits option.splits)
  with g show ?thesis
    by (intro that [of nested]) simp_all
qed

lemma emergencyWithdraw_succeeds:
  assumes "t (s\<lparr>rewardPool := 0, balance := 0\<rparr>) = Some (s', nested)"
  shows "emergencyWithdraw (owner s) t s
           = Inr (s', Send (owner s) (balance s) # nested
                        @ [Emit (RewardPoolWithdrawn (owner s') (of_nat (balance s)))])"
  using assms by (simp add: emergencyWithdraw_def onlyOwner_def send_def Let_def)

lemma transferOwnership_Inr:
  assumes "transferOwnership sender newOwner s = Inr (s', fx)"
  shows "sender = owner s" and "newOwner \<noteq> 0" and "s' = s\<lparr>owner := newOwner\<rparr>" and "fx = []"
  using assms
  by (auto simp: transferOwnership_def onlyOwner_def split: if_splits)

lemma view_unchanged:
  "dispatch e t (View v) s = Inr (s', fx) \<Longrightarrow> s' = s \<and> fx = []"
  by (auto split: sum.splits)

subsection \<open>One call and its recipient\<close>

declare execute.simps [simp del]

lemma execute_payable_guard:
  "\<not> payable c \<Longrightarrow> msg_value e \<noteq> 0 \<Longrightarrow> execute e c s = Inl (Revert [])"
  by (simp add: execute.simps)

lemma execute_Inr:
  "execute e c s = Inr r \<Longrightarrow>
     dispatch e (recipient_runs (block_timestamp e) (recipient e)) c s = Inr r"
  by (simp add: execute.simps split: if_splits)

lemma recipient_runs_alone:
  "recipient_runs timestamp (Recipient [] ok) s = (if ok then Some (s, []) else None)"
  by simp

lemma transact_reverted: "execute e c s = Inl err \<Longrightarrow> transact e c s = s"
  by (simp add: transact_def)

lemma transact_returned: "execute e c s = Inr (s', fx) \<Longrightarrow> transact e c s = s'"
  by (simp add: transact_def)

lemma transact_cases:
  obtains (reverted) err where "execute e c s = Inl err" and "transact e c s = s"
  | (returned) s' fx where "execute e c s = Inr (s', fx)"
      and "dispatch e (recipient_runs (block_timestamp e) (recipient e)) c s = Inr (s', fx)"
      and "transact e c s = s'"
proof (cases "execute e c s")
  case (Inl err)
  then show ?thesis by (intro reverted [of err]) (simp_all add: transact_def)
next
  case (Inr r)
  obtain s' fx where r: "r = (s', fx)" by (cases r)
  with Inr execute_Inr [of e c s r] show ?thesis
    by (intro returned [of s' fx]) (simp_all add: transact_def)
qed

subsection \<open>The sample history, evaluated\<close>

lemma sample_deployed_simps:
  "owner sample_deployed = 1" "rewardPool sample_deployed = 1000000000000000"
  "balance sample_deployed = 1000000000000000"
  "userCheckIns sample_deployed a = zeroUser"
  by (simp_all add: sample_deployed_def constructor_def)

lemmas sample_eval =
  sample_streak_def sample_env_def transact_def execute.simps checkIn_def
  checked_add_def checked_sub_def CHECK_IN_INTERVAL_def REWARD_AMOUNT_def REWARD_INTERVAL_def
  Let_def FHE_add_def FHE_asEuint32_def sample_deployed_simps zeroUser_def send_def

lemma sample_streak_simps:
  "encryptedDays (userCheckIns sample_streak 5) = 2"
  "lastCheckInTime (userCheckIns sample_streak 5) = 1700086400"
  "lastClaimedDay (userCheckIns sample_streak 5) = 0"
  "lastClaimedDay (userCheckIns sample_streak 9) = 0"
  "owner sample_streak = 1" "rewardPool sample_streak = 1000000000000000"
  "balance sample_streak = 1000000000000000"
  by (simp_all add: sample_eval)

lemma reachable_sample_streak: "reachable sample_streak"
  unfolding sample_streak_def sample_deployed_def
  by (intro reachable.called reachable.deployed)

subsection \<open>Check-in\<close>

text \<open>A user who has never checked in reads as the all-zero struct.\<close>

lemma never_checked_in:
  "lastCheckInTime (userCheckIns (fst (constructor deployer v held)) user) = 0"
  by (simp add: constructor_def zeroUser_def)

text \<open>The gate, wherever the two sums of the source fit into a \<^verbatim>\<open>uint256\<close>.\<close>

lemma checkIn_gate_fits:
  assumes small: "unat (lastCheckInTime (userCheckIns s sender)) + 172800 < 2 ^ 256"
  shows "(\<exists>r. checkIn sender timestamp s = Inr r) \<longleftrightarrow>
           unat (lastCheckInTime (userCheckIns s sender)) + 86400 \<le> unat timestamp"
    and "\<not> unat (lastCheckInTime (userCheckIns s sender)) + 86400 \<le> unat timestamp \<Longrightarrow>
           checkIn sender timestamp s = Inl (Revert ''Already checked in today'')"
proof -
  let ?last = "lastCheckInTime (userCheckIns s sender)"
  from small have a1: "unat ?last + unat CHECK_IN_INTERVAL < 2 ^ 256"
    by (simp add: unat_CHECK_IN_INTERVAL)
  from small have a2: "unat ?last + unat (CHECK_IN_INTERVAL * 2) < 2 ^ 256"
    by (simp add: unat_CHECK_IN_INTERVAL2)
  note n1 = checked_add_Inr [OF a1] and n2 = checked_add_Inr [OF a2]
  have le: "?last + CHECK_IN_INTERVAL \<le> timestamp \<longleftrightarrow> unat ?last + 86400 \<le> unat timestamp"
    using n1 by (simp add: word_le_nat_alt unat_CHECK_IN_INTERVAL)
  show "(\<exists>r. checkIn sender timestamp s = Inr r) \<longleftrightarrow> unat ?last + 86400 \<le> unat timestamp"
    using n1 n2 le by (simp add: checkIn_def Let_def split: prod.splits)
  show "checkIn sender timestamp s = Inl (Revert ''Already checked in today'')"
    if "\<not> unat ?last + 86400 \<le> unat timestamp"
    using n1 n2 le that by (simp add: checkIn_def Let_def)
qed

text \<open>
  C1. The 24-hour gate of \<open>checkIn\<close>, on the clock of a chain: \<^verbatim>\<open>block.timestamp\<close> is
  Unix time, at least one day after the epoch and below \<open>2 ^ 64\<close> (the width of the
  field in a block header), and the caller's stored \<open>lastCheckInTime\<close>, which is 0 or
  the timestamp of an earlier block, is not ahead of it. For every caller, \<open>checkIn\<close>
  succeeds if and only if at least 24 hours (\<open>CHECK_IN_INTERVAL\<close> = 86400 seconds) have
  passed since that caller's stored \<open>lastCheckInTime\<close>; otherwise it reverts with "Already
  checked in today". For a user who has never checked in \<open>lastCheckInTime\<close> is 0
  (\<open>never_checked_in\<close>), so a first check-in always passes the gate.
\<close>

theorem checkIn_gate:
  assumes "86400 \<le> unat timestamp" and "unat timestamp < 2 ^ 64"
    and "unat (lastCheckInTime (userCheckIns s sender)) \<le> unat timestamp"
  shows "((\<exists>r. checkIn sender timestamp s = Inr r) \<longleftrightarrow>
            unat (lastCheckInTime (userCheckIns s sender)) + 86400 \<le> unat timestamp)
       \<and> (\<not> unat (lastCheckInTime (userCheckIns s sender)) + 86400 \<le> unat timestamp \<longrightarrow>
            checkIn sender timestamp s = Inl (Revert ''Already checked in today''))
       \<and> (lastCheckInTime (userCheckIns s sender) = 0 \<longrightarrow>
            (\<exists>r. checkIn sender timestamp s = Inr r))"
proof -
  from assms(2,3)
  have "unat (lastCheckInTime (userCheckIns s sender)) + 172800 < 2 ^ 64 + (172800 :: nat)"
    by simp
  also have "\<dots> < 2 ^ 256" by simp
  finally have small: "unat (lastCheckInTime (userCheckIns s sender)) + 172800 < 2 ^ 256" .
  from checkIn_gate_fits [OF small, of timestamp] assms(1) show ?thesis
    by auto
qed

text \<open>
  C1, at the sample history: the first check-in of address 5 passes the gate; one
  second before 24 hours have passed since its second check-in, the call reverts.
\<close>

theorem checkIn_gate_witness:
  "86400 \<le> unat (1700000000 :: uint256) \<and> unat (1700000000 :: uint256) < 2 ^ 64
 \<and> lastCheckInTime (userCheckIns sample_deployed 5) = 0
 \<and> (\<exists>r. checkIn 5 1700000000 sample_deployed = Inr r)
 \<and> 86400 \<le> unat (1700172799 :: uint256) \<and> unat (1700172799 :: uint256) < 2 ^ 64
 \<and> unat (lastCheckInTime (userCheckIns sample_streak 5)) \<le> unat (1700172799 :: uint256)
 \<and> checkIn 5 1700172799 sample_streak = Inl (Revert ''Already checked in today'')"
  using checkIn_gate [of 1700000000 sample_deployed 5]
    checkIn_gate [of 1700172799 sample_streak 5]
  by (simp add: sample_deployed_simps sample_streak_simps zeroUser_def)

text \<open>
  C2, as stated, fails: a successful \<open>checkIn\<close> does not always leave the counter one
  above its value at the start of the call. Address 5 has a streak of 2; it checks in
  48 hours and one second after its last check-in; the call succeeds and the counter
  is 1, not 3.
\<close>

theorem checkIn_counter_counterexample:
  "\<not> isl (checkIn 5 1700259201 sample_streak)
 \<and> encryptedDays (userCheckIns sample_streak 5) = 2
 \<and> encryptedDays (userCheckIns (fst (projr (checkIn 5 1700259201 sample_streak))) 5) = 1"
  by (simp add: sample_streak_simps checkIn_def checked_add_def CHECK_IN_INTERVAL_def
      Let_def FHE_add_def FHE_asEuint32_def)

text \<open>
  C2, amended. On every successful \<open>checkIn\<close> the caller's \<open>lastCheckInTime\<close> is set to
  the block timestamp, and the caller's encrypted counter is one above its value at
  the start of the call (modulo \<open>2 ^ 32\<close>, the arithmetic of \<^verbatim>\<open>euint32\<close>) when at most 48
  hours have passed since the last check-in, and 1 when more than 48 hours have passed.
\<close>

theorem checkIn_counter_and_time:
  assumes "checkIn sender timestamp s = Inr (s', fx)"
  shows "lastCheckInTime (userCheckIns s' sender) = timestamp
       \<and> encryptedDays (userCheckIns s' sender) =
           (if unat (lastCheckInTime (userCheckIns s sender)) + 172800 < unat timestamp then 1
            else encryptedDays (userCheckIns s sender) + 1)"
  using checkIn_Inr(3,5) [OF assms] by simp

text \<open>
  C2 amended, at the sample history: after 48 hours and one second the counter is 1,
  after exactly 24 hours it is 3.
\<close>

theorem checkIn_counter_and_time_witness:
  "checkIn 5 1700259201 sample_streak = Inr (projr (checkIn 5 1700259201 sample_streak))
 \<and> lastCheckInTime (userCheckIns (fst (projr (checkIn 5 1700259201 sample_streak))) 5)
      = 1700259201
 \<and> encryptedDays (userCheckIns (fst (projr (checkIn 5 1700259201 sample_streak))) 5) = 1
 \<and> checkIn 5 1700172800 sample_streak = Inr (projr (checkIn 5 1700172800 sample_streak))
 \<and> encryptedDays (userCheckIns (fst (projr (checkIn 5 1700172800 sample_streak))) 5) = 3"
proof -
  have ok: "checkIn 5 t sample_streak = Inr (projr (checkIn 5 t sample_streak))"
    if "1700172800 \<le> unat t" for t
  proof -
    from that have "\<exists>r. checkIn 5 t sample_streak = Inr r"
      by (intro checkIn_succeeds) (simp_all add: sample_streak_simps)
    then show ?thesis by auto
  qed
  have a: "checkIn 5 1700259201 sample_streak
             = Inr (fst (projr (checkIn 5 1700259201 sample_streak)),
                    snd (projr (checkIn 5 1700259201 sample_streak)))"
    using ok [of 1700259201] by simp
  have b: "checkIn 5 1700172800 sample_streak
             = Inr (fst (projr (checkIn 5 1700172800 sample_streak)),
                    snd (projr (checkIn 5 1700172800 sample_streak)))"
    using ok [of 1700172800] by simp
  from checkIn_counter_and_time [OF a] checkIn_counter_and_time [OF b]
    ok [of 1700259201] ok [of 1700172800]
  show ?thesis by (simp add: sample_streak_simps)
qed

text \<open>
  C9. The continuity reset. When \<open>checkIn\<close> is called more than 48 hours
  (\<open>2 * CHECK_IN_INTERVAL\<close> = 172800 seconds) after the caller's \<open>lastCheckInTime\<close>, the
  call succeeds, the counter and \<open>lastClaimedDay\<close> are set to 0 before the increment,
  and the call leaves the counter at 1 and \<open>lastClaimedDay\<close> at 0. When the call comes
  between 24 and 48 hours after \<open>lastCheckInTime\<close> (both bounds included) and succeeds,
  neither field is reset: the counter is one above its old value and \<open>lastClaimedDay\<close>
  is unchanged.
\<close>

theorem checkIn_continuity_reset:
  "(unat (lastCheckInTime (userCheckIns s sender)) + 172800 < unat timestamp \<longrightarrow>
      (\<exists>s' fx. checkIn sender timestamp s = Inr (s', fx)
         \<and> encryptedDays (userCheckIns s' sender) = 1
         \<and> lastClaimedDay (userCheckIns s' sender) = 0))
 \<and> (unat (lastCheckInTime (userCheckIns s sender)) + 86400 \<le> unat timestamp
      \<and> unat timestamp \<le> unat (lastCheckInTime (userCheckIns s sender)) + 172800
      \<and> checkIn sender timestamp s = Inr (s', fx) \<longrightarrow>
        encryptedDays (userCheckIns s' sender) = encryptedDays (userCheckIns s sender) + 1
      \<and> lastClaimedDay (userCheckIns s' sender) = lastClaimedDay (userCheckIns s sender))"
proof (intro conjI impI)
  assume gt: "unat (lastCheckInTime (userCheckIns s sender)) + 172800 < unat timestamp"
  have "unat timestamp < 2 ^ 256"
    using unsigned_less [of timestamp, where 'a = nat] by simp
  with gt have "\<exists>r. checkIn sender timestamp s = Inr r"
    by (intro checkIn_succeeds) simp_all
  then obtain s1 fx1 where r: "checkIn sender timestamp s = Inr (s1, fx1)"
    by auto
  from checkIn_Inr(3,4) [OF r] gt r
  show "\<exists>s' fx. checkIn sender timestamp s = Inr (s', fx)
         \<and> encryptedDays (userCheckIns s' sender) = 1
         \<and> lastClaimedDay (userCheckIns s' sender) = 0"
    by simp
next
  assume h: "unat (lastCheckInTime (userCheckIns s sender)) + 86400 \<le> unat timestamp
      \<and> unat timestamp \<le> unat (lastCheckInTime (userCheckIns s sender)) + 172800
      \<and> checkIn sender timestamp s = Inr (s', fx)"
  then have r: "checkIn sender timestamp s = Inr (s', fx)" by simp
  from checkIn_Inr(3) [OF r] h
  show "encryptedDays (userCheckIns s' sender) = encryptedDays (userCheckIns s sender) + 1"
    by simp
  from checkIn_Inr(4) [OF r] h
  show "lastClaimedDay (userCheckIns s' sender) = lastClaimedDay (userCheckIns s sender)"
    by simp
qed

text \<open>
  C9, at the sample history: 48 hours and one second after the last check-in the
  streak of 2 becomes 1; at exactly 48 hours it becomes 3.
\<close>

theorem checkIn_continuity_reset_witness:
  "(\<exists>s' fx. checkIn 5 1700259201 sample_streak = Inr (s', fx)
       \<and> encryptedDays (userCheckIns s' 5) = 1 \<and> lastClaimedDay (userCheckIns s' 5) = 0)
 \<and> checkIn 5 1700259200 sample_streak = Inr (projr (checkIn 5 1700259200 sample_streak))
 \<and> encryptedDays (userCheckIns (fst (projr (checkIn 5 1700259200 sample_streak))) 5) = 3"
proof -
  have "\<exists>r. checkIn 5 1700259200 sample_streak = Inr r"
    by (intro checkIn_succeeds) (simp_all add: sample_streak_simps)
  then have ok: "checkIn 5 1700259200 sample_streak
                   = Inr (projr (checkIn 5 1700259200 sample_streak))"
    by auto
  then have a: "checkIn 5 1700259200 sample_streak
             = Inr (fst (projr (checkIn 5 1700259200 sample_streak)),
                    snd (projr (checkIn 5 1700259200 sample_streak)))"
    by simp
  from checkIn_continuity_reset [of sample_streak 5 1700259201]
  have "\<exists>s' fx. checkIn 5 1700259201 sample_streak = Inr (s', fx)
       \<and> encryptedDays (userCheckIns s' 5) = 1 \<and> lastClaimedDay (userCheckIns s' 5) = 0"
    by (simp add: sample_streak_simps)
  moreover from checkIn_continuity_reset
       [of sample_streak 5 1700259200 "fst (projr (checkIn 5 1700259200 sample_streak))"
           "snd (projr (checkIn 5 1700259200 sample_streak))"] a
  have "encryptedDays (userCheckIns (fst (projr (checkIn 5 1700259200 sample_streak))) 5) = 3"
    by (simp add: sample_streak_simps)
  ultimately show ?thesis using ok by simp
qed

subsection \<open>Recipients that call back\<close>

text \<open>
  A recipient that calls back into the contract reaches no state that calls made one
  after the other do not reach: every function that pays has finished its writes when
  it hands over control, so the state a call returns is the state reached by the same
  call paying a recipient that makes no call, followed by the calls of the recipient.
\<close>

lemma plain_calls_trans:
  "plain_calls s1 s2 \<Longrightarrow> plain_calls s s1 \<Longrightarrow> plain_calls s s2"
  by (induction rule: plain_calls.induct) (auto intro: plain_calls.intros)

lemma plain_call_own:
  assumes r: "dispatch e t c s = Inr (s', fx)" and ok: "\<not> (\<not> payable c \<and> msg_value e \<noteq> 0)"
  obtains (own) "transact (e\<lparr>recipient := Recipient [] True\<rparr>) c s = s'"
  | (paid) mid nested where "transact (e\<lparr>recipient := Recipient [] True\<rparr>) c s = mid"
      and "t mid = Some (s', nested)"
proof (cases "pays_out c")
  case False
  with r have "dispatch (e\<lparr>recipient := Recipient [] True\<rparr>)
                 (recipient_runs (block_timestamp e) (Recipient [] True)) c s = Inr (s', fx)"
    by (cases c) simp_all
  with ok have "execute (e\<lparr>recipient := Recipient [] True\<rparr>) c s = Inr (s', fx)"
    by (simp add: execute.simps)
  from transact_returned [OF this] show ?thesis by (rule own)
next
  case True
  let ?e = "e\<lparr>recipient := Recipient [] True\<rparr>"
  let ?t = "recipient_runs (block_timestamp e) (Recipient [] True)"
  from True ok have zero: "msg_value e = 0" by (cases c) simp_all
  from True consider (claim) d where "c = ClaimReward d"
    | (withdraw) amount where "c = WithdrawRewardPool amount"
    | (emergency) "c = EmergencyWithdraw"
    by (cases c) simp_all
  then show ?thesis
  proof cases
    case claim
    with r have "claimReward (msg_sender e) t d s = Inr (s', fx)" by simp
    then show ?thesis
    proof (rule claimReward_Inr)
      fix nested
      let ?mid = "s\<lparr>userCheckIns :=
                 (userCheckIns s)(msg_sender e := (userCheckIns s (msg_sender e))\<lparr>lastClaimedDay := d\<rparr>),
               rewardPool := rewardPool s - REWARD_AMOUNT,
               balance := balance s - 100000000000000\<rparr>"
      assume g: "d mod 2 = 1" "lastClaimedDay (userCheckIns s (msg_sender e)) < d"
        "REWARD_AMOUNT \<le> rewardPool s" "100000000000000 \<le> balance s"
        and h: "t ?mid = Some (s', nested)"
      have "?t ?mid = Some (?mid, [])" by simp
      from claimReward_succeeds [of d s "msg_sender e" ?t ?mid "[]", OF g this]
      have "execute ?e c s = Inr (?mid, Send (msg_sender e) 100000000000000 # []
                        @ [Emit (RewardClaimed (msg_sender e) d REWARD_AMOUNT)])"
        using zero claim by (simp add: execute.simps)
      from transact_returned [OF this] h show ?thesis by (rule paid)
    qed
  next
    case withdraw
    with r have "withdrawRewardPool (msg_sender e) t amount s = Inr (s', fx)" by simp
    then show ?thesis
    proof (rule withdrawRewardPool_Inr)
      fix nested
      let ?mid = "s\<lparr>rewardPool := rewardPool s - amount, balance := balance s - unat amount\<rparr>"
      assume o: "msg_sender e = owner s"
        and g: "amount \<le> rewardPool s" "unat amount \<le> balance s"
        and h: "t ?mid = Some (s', nested)"
      have "?t ?mid = Some (?mid, [])" by simp
      from withdrawRewardPool_succeeds [of amount s ?t ?mid "[]", OF g this]
      have "execute ?e c s = Inr (?mid, Send (owner s) (unat amount) # []
                        @ [Emit (RewardPoolWithdrawn (owner ?mid) amount)])"
        using zero withdraw o by (simp add: execute.simps)
      from transact_returned [OF this] h show ?thesis by (rule paid)
    qed
  next
    case emergency
    with r have "emergencyWithdraw (msg_sender e) t s = Inr (s', fx)" by simp
    then show ?thesis
    proof (rule emergencyWithdraw_Inr)
      fix nested
      let ?mid = "s\<lparr>rewardPool := 0, balance := 0\<rparr>"
      assume o: "msg_sender e = owner s"
        and h: "t ?mid = Some (s', nested)"
      have "?t ?mid = Some (?mid, [])" by simp
      from emergencyWithdraw_succeeds [of ?t s ?mid "[]", OF this]
      have "execute ?e c s = Inr (?mid, Send (owner s) (balance s) # []
                        @ [Emit (RewardPoolWithdrawn (owner ?mid) (of_nat (balance s)))])"
        using zero emergency o by (simp add: execute.simps)
      from transact_returned [OF this] h show ?thesis by (rule paid)
    qed
  qed
qed

lemma calls_as_plain_calls:
  "execute e c s = Inr (s', fx) \<Longrightarrow> plain_calls s s'"
  "recipient_runs ts r x = Some (x', nested) \<Longrightarrow> plain_calls x x'"
  "calls_back ts' calls y = (y', fy) \<Longrightarrow> plain_calls y y'"
proof (induction e c s and ts r x and ts' calls y arbitrary: s' fx and x' nested and y' fy
    rule: execute_recipient_runs_calls_back.induct)
  case (1 e c s)
  from "1.prems" have ok: "\<not> (\<not> payable c \<and> msg_value e \<noteq> 0)"
    by (auto simp: execute.simps split: if_splits)
  have plain: "recipient (e\<lparr>recipient := Recipient [] True\<rparr>) = Recipient [] True" by simp
  from execute_Inr [OF "1.prems"] ok show ?case
  proof (cases rule: plain_call_own)
    case own
    with plain_calls.more [OF plain_calls.none plain, of s c] show ?thesis by simp
  next
    case (paid mid nested)
    from plain_calls.more [OF plain_calls.none plain, of s c] paid(1)
    have "plain_calls s mid" by simp
    from plain_calls_trans [OF "1.IH" [OF ok paid(2)] this] show ?thesis .
  qed
next
  case (2 timestamp calls ok s)
  then show ?case by (auto split: if_splits)
next
  case (3 timestamp s)
  then show ?case by (simp add: plain_calls.none)
next
  case (4 timestamp sender v c r calls s)
  let ?e = "\<lparr>msg_sender = sender, msg_value = v, block_timestamp = timestamp, recipient = r\<rparr>"
  show ?case
  proof (cases "execute ?e c s")
    case (Inl err)
    with "4.prems" have "calls_back timestamp calls s = (y', fy)" by simp
    from "4.IH"(2) [OF Inl this] show ?thesis .
  next
    case (Inr b)
    obtain s1 f1 where b: "b = (s1, f1)" by (cases b)
    from Inr b "4.IH"(1) have first: "plain_calls s s1" by simp
    from Inr b "4.prems" obtain f2 where "calls_back timestamp calls s1 = (y', f2)"
      by (auto split: prod.splits)
    from plain_calls_trans [OF "4.IH"(3) [OF Inr b [symmetric] this] first] show ?thesis .
  qed
qed

subsection \<open>Rewards\<close>

text \<open>
  C3, as stated, fails for a caller that calls back. Address 9 is a contract whose
  \<^verbatim>\<open>receive\<close> function calls \<^verbatim>\<open>claimReward(3)\<close>. Its call of \<^verbatim>\<open>claimReward(1)\<close> succeeds;
  when it returns, \<open>rewardPool\<close> is two rewards below its value before the call, the
  caller has been sent the reward twice, and \<open>lastClaimedDay\<close> is 3. (Calls made one
  after the other reach the same state: \<open>calls_as_plain_calls\<close>.)
\<close>

theorem claimReward_pays_once_counterexample:
  "\<not> isl (execute sample_claims_again (ClaimReward 1) sample_streak)
 \<and> rewardPool sample_streak = 1000000000000000
 \<and> rewardPool (fst (projr (execute sample_claims_again (ClaimReward 1) sample_streak)))
      = 800000000000000
 \<and> lastClaimedDay
      (userCheckIns (fst (projr (execute sample_claims_again (ClaimReward 1) sample_streak))) 9)
      = 3
 \<and> snd (projr (execute sample_claims_again (ClaimReward 1) sample_streak))
      = [Send 9 100000000000000, Send 9 100000000000000,
         Emit (RewardClaimed 9 3 REWARD_AMOUNT), Emit (RewardClaimed 9 1 REWARD_AMOUNT)]"
  by (simp add: sample_claims_again_def execute.simps claimReward_def send_def Let_def
      checked_sub_def REWARD_AMOUNT_def REWARD_INTERVAL_def sample_streak_simps)

text \<open>
  C3, amended. Every successful \<open>claimReward\<close> takes exactly \<open>REWARD_AMOUNT\<close> (0.0001
  ether, \<open>10 ^ 14\<close> wei) from \<open>rewardPool\<close> and transfers that same amount to the caller,
  and it has done both when the caller's code gets control: the state the call leaves
  is the state the caller's code leaves from there. When the caller does not call back
  into the contract, \<open>rewardPool\<close> after the call is exactly \<open>REWARD_AMOUNT\<close> below its
  value before, and the caller has been paid once. \<open>claimReward\<close> reverts, and the state
  (with it \<open>rewardPool\<close>) stays as it was, whenever \<open>rewardPool < REWARD_AMOUNT\<close>, whenever
  \<open>currentDay mod 2\<close> is not 1, and whenever \<open>currentDay\<close> is at most the caller's
  \<open>lastClaimedDay\<close>.
\<close>

theorem claimReward_pays_from_pool:
  "(claimReward sender t currentDay s = Inr (s', fx) \<longrightarrow>
       (\<exists>nested.
          t (s\<lparr>userCheckIns :=
                 (userCheckIns s)(sender := (userCheckIns s sender)\<lparr>lastClaimedDay := currentDay\<rparr>),
               rewardPool := rewardPool s - REWARD_AMOUNT,
               balance := balance s - 100000000000000\<rparr>) = Some (s', nested)
        \<and> fx = Send sender 100000000000000 # nested
                  @ [Emit (RewardClaimed sender currentDay REWARD_AMOUNT)])
     \<and> unat (rewardPool s - REWARD_AMOUNT) + 100000000000000 = unat (rewardPool s)
     \<and> 100000000000000 \<le> balance s)
 \<and> (claimReward sender (recipient_runs timestamp (Recipient [] ok)) currentDay s = Inr (s', fx) \<longrightarrow>
       rewardPool s' = rewardPool s - REWARD_AMOUNT
     \<and> unat (rewardPool s') + 100000000000000 = unat (rewardPool s)
     \<and> balance s' + 100000000000000 = balance s
     \<and> fx = [Send sender 100000000000000, Emit (RewardClaimed sender currentDay REWARD_AMOUNT)])
 \<and> (rewardPool s < REWARD_AMOUNT \<or> currentDay mod 2 \<noteq> 1
       \<or> currentDay \<le> lastClaimedDay (userCheckIns s (msg_sender e)) \<longrightarrow>
       (\<exists>err. execute e (ClaimReward currentDay) s = Inl err)
     \<and> transact e (ClaimReward currentDay) s = s)"
proof -
  have paid: "(\<exists>nested.
          t (s\<lparr>userCheckIns :=
                 (userCheckIns s)(sender := (userCheckIns s sender)\<lparr>lastClaimedDay := currentDay\<rparr>),
               rewardPool := rewardPool s - REWARD_AMOUNT,
               balance := balance s - 100000000000000\<rparr>) = Some (s', nested)
        \<and> fx = Send sender 100000000000000 # nested
                  @ [Emit (RewardClaimed sender currentDay REWARD_AMOUNT)])
     \<and> unat (rewardPool s - REWARD_AMOUNT) + 100000000000000 = unat (rewardPool s)
     \<and> 100000000000000 \<le> balance s"
    if r: "claimReward sender t currentDay s = Inr (s', fx)"
    using r by (rule claimReward_Inr) blast
  have once: "rewardPool s' = rewardPool s - REWARD_AMOUNT
     \<and> unat (rewardPool s') + 100000000000000 = unat (rewardPool s)
     \<and> balance s' + 100000000000000 = balance s
     \<and> fx = [Send sender 100000000000000, Emit (RewardClaimed sender currentDay REWARD_AMOUNT)]"
    if r: "claimReward sender (recipient_runs timestamp (Recipient [] ok)) currentDay s
             = Inr (s', fx)"
    using r by (rule claimReward_Inr) (auto split: if_splits)
  have refused: "(\<exists>err. execute e (ClaimReward currentDay) s = Inl err)
     \<and> transact e (ClaimReward currentDay) s = s"
    if g: "rewardPool s < REWARD_AMOUNT \<or> currentDay mod 2 \<noteq> 1
       \<or> currentDay \<le> lastClaimedDay (userCheckIns s (msg_sender e))"
  proof -
    from claimReward_guards [OF g]
    have "\<exists>err. execute e (ClaimReward currentDay) s = Inl err"
      by (auto simp: execute.simps)
    then show ?thesis
      by (auto dest: transact_reverted)
  qed
  from paid once refused show ?thesis by blast
qed

text \<open>
  C3 amended, at the sample history: address 5, which takes the ether and does nothing
  else, claims for day 1 and is paid \<open>10 ^ 14\<close> wei out of a pool of \<open>10 ^ 15\<close>; a claim
  for day 2 leaves the state as it was.
\<close>

theorem claimReward_pays_from_pool_witness:
  "claimReward 5 (recipient_runs 1700259201 (Recipient [] True)) 1 sample_streak
     = Inr (projr (claimReward 5 (recipient_runs 1700259201 (Recipient [] True)) 1 sample_streak))
 \<and> rewardPool
      (fst (projr (claimReward 5 (recipient_runs 1700259201 (Recipient [] True)) 1 sample_streak)))
      = 900000000000000
 \<and> balance
      (fst (projr (claimReward 5 (recipient_runs 1700259201 (Recipient [] True)) 1 sample_streak)))
      = 900000000000000
 \<and> snd (projr (claimReward 5 (recipient_runs 1700259201 (Recipient [] True)) 1 sample_streak))
      = [Send 5 100000000000000, Emit (RewardClaimed 5 1 REWARD_AMOUNT)]
 \<and> transact (sample_env 5 1700259201) (ClaimReward 2) sample_streak = sample_streak"
proof -
  let ?r = "claimReward 5 (recipient_runs 1700259201 (Recipient [] True)) 1 sample_streak"
  have "\<exists>r. ?r = Inr r"
    by (simp add: claimReward_def send_def Let_def checked_sub_def REWARD_AMOUNT_def
        REWARD_INTERVAL_def sample_streak_simps)
  then have ok: "?r = Inr (projr ?r)"
    by auto
  then have a: "?r = Inr (fst (projr ?r), snd (projr ?r))"
    by simp
  have b: "(2 :: uint256) mod 2 \<noteq> 1" by simp
  from claimReward_pays_from_pool
         [of 5 _ 1 sample_streak "fst (projr ?r)" "snd (projr ?r)" 1700259201 True] a
  have "rewardPool (fst (projr ?r)) = 900000000000000
      \<and> balance (fst (projr ?r)) = 900000000000000
      \<and> snd (projr ?r) = [Send 5 100000000000000, Emit (RewardClaimed 5 1 REWARD_AMOUNT)]"
    by (simp add: sample_streak_simps REWARD_AMOUNT_def)
  moreover from claimReward_pays_from_pool
         [of _ _ 2 sample_streak _ _ _ _ "sample_env 5 1700259201"] b
  have "transact (sample_env 5 1700259201) (ClaimReward 2) sample_streak = sample_streak"
    by blast
  ultimately show ?thesis using ok by simp
qed













subsection \<open>Storage and the external surface\<close>

text \<open>Which calls can change which state variable.\<close>

lemma written_by_refl: "written_by cs s s"
  by (simp add: written_by_def)

lemma written_by_mono: "written_by cs s s' \<Longrightarrow> set cs \<subseteq> set cs' \<Longrightarrow> written_by cs' s s'"
  unfolding written_by_def by blast

lemma written_by_trans:
  assumes a: "written_by cs1 s s1" and b: "written_by cs2 s1 s2"
  shows "written_by (cs1 @ cs2) s s2"
proof -
  have o: "\<exists>newOwner. (owner s, TransferOwnership newOwner) \<in> set (cs1 @ cs2)"
    if d: "owner s2 \<noteq> owner s"
  proof (cases "owner s1 = owner s")
    case True
    with d have "owner s2 \<noteq> owner s1" by simp
    with b obtain n where "(owner s1, TransferOwnership n) \<in> set cs2"
      unfolding written_by_def by blast
    with True show ?thesis by auto
  next
    case False
    with a obtain n where "(owner s, TransferOwnership n) \<in> set cs1"
      unfolding written_by_def by blast
    then show ?thesis by auto
  qed
  have u: "(user, CheckIn) \<in> set (cs1 @ cs2) \<or> (user, ResetCheckIn) \<in> set (cs1 @ cs2)
          \<or> (\<exists>currentDay. (user, ClaimReward currentDay) \<in> set (cs1 @ cs2))"
    if d: "userCheckIns s2 user \<noteq> userCheckIns s user" for user
  proof (cases "userCheckIns s1 user = userCheckIns s user")
    case True
    with d have "userCheckIns s2 user \<noteq> userCheckIns s1 user" by simp
    with b have "(user, CheckIn) \<in> set cs2 \<or> (user, ResetCheckIn) \<in> set cs2
          \<or> (\<exists>currentDay. (user, ClaimReward currentDay) \<in> set cs2)"
      unfolding written_by_def by blast
    then show ?thesis by auto
  next
    case False
    with a have "(user, CheckIn) \<in> set cs1 \<or> (user, ResetCheckIn) \<in> set cs1
          \<or> (\<exists>currentDay. (user, ClaimReward currentDay) \<in> set cs1)"
      unfolding written_by_def by blast
    then show ?thesis by auto
  qed
  have p: "\<exists>sender c. (sender, c) \<in> set (cs1 @ cs2) \<and> writes_rewardPool c"
    if d: "rewardPool s2 \<noteq> rewardPool s"
  proof (cases "rewardPool s1 = rewardPool s")
    case True
    with d have "rewardPool s2 \<noteq> rewardPool s1" by simp
    with b obtain sender c where "(sender, c) \<in> set cs2" and "writes_rewardPool c"
      unfolding written_by_def by blast
    then show ?thesis by auto
  next
    case False
    with a obtain sender c where "(sender, c) \<in> set cs1" and "writes_rewardPool c"
      unfolding written_by_def by blast
    then show ?thesis by auto
  qed
  from o u p show ?thesis unfolding written_by_def by blast
qed

text \<open>
  What a function writes itself, up to the point where it hands control to the
  recipient of its transfer.
\<close>

lemma written_by_own:
  assumes r: "dispatch e t c s = Inr (s', fx)"
  obtains (own) "written_by [(msg_sender e, c)] s s'"
  | (paid) mid nested where "written_by [(msg_sender e, c)] s mid"
      and "t mid = Some (s', nested)"
proof (cases c)
  case CheckIn
  with r have c: "checkIn (msg_sender e) (block_timestamp e) s = Inr (s', fx)" by simp
  from checkIn_Inr(6) [OF c] checkIn_Inr(7,8) [OF c] show ?thesis
    by (intro own) (auto simp: written_by_def CheckIn)
next
  case ResetCheckIn
  with r have c: "resetCheckIn (msg_sender e) (block_timestamp e) s = Inr (s', fx)" by simp
  from resetCheckIn_Inr(2) [OF c] resetCheckIn_Inr(3,4) [OF c] show ?thesis
    by (intro own) (auto simp: written_by_def ResetCheckIn)
next
  case (ClaimReward d)
  with r have "claimReward (msg_sender e) t d s = Inr (s', fx)" by simp
  then show ?thesis
  proof (rule claimReward_Inr)
    fix nested
    assume h: "t (s\<lparr>userCheckIns :=
                 (userCheckIns s)(msg_sender e := (userCheckIns s (msg_sender e))\<lparr>lastClaimedDay := d\<rparr>),
               rewardPool := rewardPool s - REWARD_AMOUNT,
               balance := balance s - 100000000000000\<rparr>) = Some (s', nested)"
    show ?thesis
      by (rule paid [OF _ h]) (auto simp: written_by_def ClaimReward)
  qed
next
  case DepositRewardPool
  with r have c: "depositRewardPool (msg_sender e) (msg_value e) (credit (msg_value e) s)
                    = Inr (s', fx)"
    by simp
  from depositRewardPool_Inr(2,3) [OF c] show ?thesis
    by (intro own) (auto simp: written_by_def credit_def DepositRewardPool)
next
  case (WithdrawRewardPool amount)
  with r have "withdrawRewardPool (msg_sender e) t amount s = Inr (s', fx)" by simp
  then show ?thesis
  proof (rule withdrawRewardPool_Inr)
    fix nested
    assume h: "t (s\<lparr>rewardPool := rewardPool s - amount,
               balance := balance s - unat amount\<rparr>) = Some (s', nested)"
    show ?thesis
      by (rule paid [OF _ h]) (auto simp: written_by_def WithdrawRewardPool)
  qed
next
  case EmergencyWithdraw
  with r have "emergencyWithdraw (msg_sender e) t s = Inr (s', fx)" by simp
  then show ?thesis
  proof (rule emergencyWithdraw_Inr)
    fix nested
    assume h: "t (s\<lparr>rewardPool := 0, balance := 0\<rparr>) = Some (s', nested)"
    show ?thesis
      by (rule paid [OF _ h]) (auto simp: written_by_def EmergencyWithdraw)
  qed
next
  case (TransferOwnership n)
  with r have c: "transferOwnership (msg_sender e) n s = Inr (s', fx)" by simp
  from transferOwnership_Inr(1,3) [OF c] show ?thesis
    by (intro own) (auto simp: written_by_def TransferOwnership)
next
  case Receive
  with r have c: "receive (msg_sender e) (msg_value e) (credit (msg_value e) s) = Inr (s', fx)"
    by simp
  from receive_Inr(2,3) [OF c] show ?thesis
    by (intro own) (auto simp: written_by_def credit_def Receive)
next
  case Fallback
  with r have c: "fallback (msg_sender e) (msg_value e) (credit (msg_value e) s) = Inr (s', fx)"
    by simp
  from fallback_Inr(2,3) [OF c] show ?thesis
    by (intro own) (auto simp: written_by_def credit_def Fallback)
next
  case (View v)
  with r view_unchanged [of e t v s s' fx] show ?thesis
    by (intro own) (auto simp: written_by_def)
qed

text \<open>The writes of a call are its own and those of the calls its recipient makes.\<close>

lemma calls_written:
  "execute e c s = Inr (s', fx) \<Longrightarrow>
     written_by ((msg_sender e, c) # nested_calls (recipient e)) s s'"
  "recipient_runs ts r x = Some (x', nested) \<Longrightarrow> written_by (nested_calls r) x x'"
  "calls_back ts' calls y = (y', fy) \<Longrightarrow> written_by (nested_calls_list calls) y y'"
proof (induction e c s and ts r x and ts' calls y arbitrary: s' fx and x' nested and y' fy
    rule: execute_recipient_runs_calls_back.induct)
  case (1 e c s)
  from "1.prems" have ok: "\<not> (\<not> payable c \<and> msg_value e \<noteq> 0)"
    by (auto simp: execute.simps split: if_splits)
  from execute_Inr [OF "1.prems"] show ?case
  proof (cases rule: written_by_own)
    case own
    then show ?thesis by (rule written_by_mono) auto
  next
    case (paid mid nested)
    from written_by_trans [OF paid(1) "1.IH" [OF ok paid(2)]] show ?thesis by simp
  qed
next
  case (2 timestamp calls ok s)
  then show ?case by (auto split: if_splits)
next
  case (3 timestamp s)
  then show ?case by (simp add: written_by_refl)
next
  case (4 timestamp sender v c r calls s)
  let ?e = "\<lparr>msg_sender = sender, msg_value = v, block_timestamp = timestamp, recipient = r\<rparr>"
  show ?case
  proof (cases "execute ?e c s")
    case (Inl err)
    with "4.prems" have "calls_back timestamp calls s = (y', fy)" by simp
    from "4.IH"(2) [OF Inl this] show ?thesis by (rule written_by_mono) auto
  next
    case (Inr b)
    obtain s1 f1 where b: "b = (s1, f1)" by (cases b)
    from Inr b "4.IH"(1) have first: "written_by ((sender, c) # nested_calls r) s s1" by simp
    from Inr b "4.prems" obtain f2 where "calls_back timestamp calls s1 = (y', f2)"
      by (auto split: prod.splits)
    from written_by_trans [OF first "4.IH"(3) [OF Inr b [symmetric] this]] show ?thesis by simp
  qed
qed

text \<open>
  C5, as stated, fails: the contract has a third state variable, \<open>owner\<close>, and an entry
  point that writes it. The deployer, address 1, calls \<open>transferOwnership(2)\<close>: \<open>owner\<close>
  changes from 1 to 2, while the per-address structs and \<open>rewardPool\<close> stay as they were.
\<close>

theorem only_structs_and_pool_counterexample:
  "owner sample_deployed = 1
 \<and> owner (transact (sample_env 1 1700000000) (TransferOwnership 2) sample_deployed) = 2
 \<and> userCheckIns (transact (sample_env 1 1700000000) (TransferOwnership 2) sample_deployed)
      = userCheckIns sample_deployed
 \<and> rewardPool (transact (sample_env 1 1700000000) (TransferOwnership 2) sample_deployed)
      = rewardPool sample_deployed"
  by (simp add: transact_def execute.simps transferOwnership_def onlyOwner_def sample_env_def
      sample_deployed_simps)

text \<open>
  C5, amended. The contract's persistent state is the \<open>owner\<close> address, the per-address
  struct (\<open>encryptedDays\<close>, \<open>lastCheckInTime\<close>, \<open>lastClaimedDay\<close>) and the pool balance
  \<open>rewardPool\<close>, and no call writes anything else. Of these, \<open>owner\<close> is changed only by
  \<open>transferOwnership\<close> called by the owner; the struct of an address only by that
  address calling \<open>checkIn\<close>, \<open>resetCheckIn\<close> or \<open>claimReward\<close>; and \<open>rewardPool\<close> only by
  \<open>claimReward\<close>, \<open>depositRewardPool\<close>, \<open>withdrawRewardPool\<close>, \<open>emergencyWithdraw\<close>,
  \<^verbatim>\<open>receive\<close> and \<^verbatim>\<open>fallback\<close>. When the recipient of the call's transfer makes no call
  of its own, the call that changes a variable is the call itself; in general it is the
  call itself or one of the calls made by the recipients while the call runs.
\<close>

theorem storage_frame:
  "(recipient e = Recipient [] ok \<longrightarrow>
      (owner (transact e c s) \<noteq> owner s \<longrightarrow>
         (\<exists>newOwner. c = TransferOwnership newOwner) \<and> msg_sender e = owner s)
    \<and> (userCheckIns (transact e c s) a \<noteq> userCheckIns s a \<longrightarrow>
         a = msg_sender e \<and> (c = CheckIn \<or> c = ResetCheckIn \<or> (\<exists>d. c = ClaimReward d)))
    \<and> (rewardPool (transact e c s) \<noteq> rewardPool s \<longrightarrow>
         (\<exists>d. c = ClaimReward d) \<or> c = DepositRewardPool
         \<or> (\<exists>amount. c = WithdrawRewardPool amount)
         \<or> c = EmergencyWithdraw \<or> c = Receive \<or> c = Fallback))
 \<and> written_by ((msg_sender e, c) # nested_calls (recipient e)) s (transact e c s)"
proof -
  have all: "written_by ((msg_sender e, c) # nested_calls (recipient e)) s (transact e c s)"
  proof (cases e c s rule: transact_cases)
    case (reverted err)
    then show ?thesis by (simp add: written_by_refl)
  next
    case (returned s' fx)
    from calls_written(1) [OF returned(1)] returned(3) show ?thesis by simp
  qed
  have alone: "(owner (transact e c s) \<noteq> owner s \<longrightarrow>
         (\<exists>newOwner. c = TransferOwnership newOwner) \<and> msg_sender e = owner s)
    \<and> (userCheckIns (transact e c s) a \<noteq> userCheckIns s a \<longrightarrow>
         a = msg_sender e \<and> (c = CheckIn \<or> c = ResetCheckIn \<or> (\<exists>d. c = ClaimReward d)))
    \<and> (rewardPool (transact e c s) \<noteq> rewardPool s \<longrightarrow>
         (\<exists>d. c = ClaimReward d) \<or> c = DepositRewardPool
         \<or> (\<exists>amount. c = WithdrawRewardPool amount)
         \<or> c = EmergencyWithdraw \<or> c = Receive \<or> c = Fallback)"
    if "recipient e = Recipient [] ok"
  proof -
    from all that have w: "written_by [(msg_sender e, c)] s (transact e c s)" by simp
    have o: "(\<exists>newOwner. c = TransferOwnership newOwner) \<and> msg_sender e = owner s"
      if "owner (transact e c s) \<noteq> owner s"
      using w that unfolding written_by_def by auto
    have u: "a = msg_sender e \<and> (c = CheckIn \<or> c = ResetCheckIn \<or> (\<exists>d. c = ClaimReward d))"
      if "userCheckIns (transact e c s) a \<noteq> userCheckIns s a"
      using w that unfolding written_by_def by auto
    have p: "(\<exists>d. c = ClaimReward d) \<or> c = DepositRewardPool
         \<or> (\<exists>amount. c = WithdrawRewardPool amount)
         \<or> c = EmergencyWithdraw \<or> c = Receive \<or> c = Fallback"
      if "rewardPool (transact e c s) \<noteq> rewardPool s"
    proof -
      from w that have "writes_rewardPool c" unfolding written_by_def by auto
      then show ?thesis by (cases c) simp_all
    qed
    from o u p show ?thesis by blast
  qed
  from all alone show ?thesis by blast
qed

text \<open>
  C5 amended, at the sample history: the transfer of ownership above changes \<open>owner\<close>,
  and it is a \<open>transferOwnership\<close> by the owner; the first check-in of address 5 changes
  the struct of address 5, the caller; a claim by address 5 changes \<open>rewardPool\<close>. The
  claim of address 9, which claims again when it is paid, changes \<open>rewardPool\<close> too:
  through the two calls of \<open>claimReward\<close>.
\<close>

theorem storage_frame_witness:
  "owner (transact (sample_env 1 1700000000) (TransferOwnership 2) sample_deployed)
     \<noteq> owner sample_deployed
 \<and> msg_sender (sample_env 1 1700000000) = owner sample_deployed
 \<and> userCheckIns (transact (sample_env 5 1700000000) CheckIn sample_deployed) 5
     \<noteq> userCheckIns sample_deployed 5
 \<and> 5 = msg_sender (sample_env 5 1700000000)
 \<and> rewardPool (transact (sample_env 5 1700000000) (ClaimReward 1) sample_deployed)
     \<noteq> rewardPool sample_deployed
 \<and> rewardPool (transact sample_claims_again (ClaimReward 1) sample_streak)
     \<noteq> rewardPool sample_streak
 \<and> written_by [(9, ClaimReward 1), (9, ClaimReward 3)] sample_streak
     (transact sample_claims_again (ClaimReward 1) sample_streak)"
proof -
  have o: "owner (transact (sample_env 1 1700000000) (TransferOwnership 2) sample_deployed)
             \<noteq> owner sample_deployed"
    by (simp add: transact_def execute.simps transferOwnership_def onlyOwner_def sample_env_def
        sample_deployed_simps)
  have p: "rewardPool (transact (sample_env 5 1700000000) (ClaimReward 1) sample_deployed)
             \<noteq> rewardPool sample_deployed"
    by (simp add: transact_def execute.simps claimReward_def sample_env_def send_def Let_def
        checked_sub_def REWARD_AMOUNT_def REWARD_INTERVAL_def sample_deployed_simps zeroUser_def)
  have q: "rewardPool (transact sample_claims_again (ClaimReward 1) sample_streak)
             \<noteq> rewardPool sample_streak"
    by (simp add: transact_def sample_claims_again_def execute.simps claimReward_def send_def
        Let_def checked_sub_def REWARD_AMOUNT_def REWARD_INTERVAL_def sample_streak_simps)
  have u: "userCheckIns (transact (sample_env 5 1700000000) CheckIn sample_deployed) 5
             \<noteq> userCheckIns sample_deployed 5"
  proof
    assume "userCheckIns (transact (sample_env 5 1700000000) CheckIn sample_deployed) 5
              = userCheckIns sample_deployed 5"
    then have "encryptedDays
                 (userCheckIns (transact (sample_env 5 1700000000) CheckIn sample_deployed) 5)
                 = encryptedDays (userCheckIns sample_deployed 5)"
      by simp
    then show False
      by (simp add: sample_env_def transact_def execute.simps checkIn_def checked_add_def
          CHECK_IN_INTERVAL_def Let_def FHE_add_def FHE_asEuint32_def sample_deployed_simps
          zeroUser_def)
  qed
  have alone: "recipient (sample_env sender timestamp) = Recipient [] True" for sender timestamp
    by (simp add: sample_env_def)
  from storage_frame [of "sample_env 1 1700000000" True "TransferOwnership 2" sample_deployed]
    o alone
  have "msg_sender (sample_env 1 1700000000) = owner sample_deployed"
    by blast
  moreover
  from storage_frame [of "sample_env 5 1700000000" True CheckIn sample_deployed 5] u alone
  have "5 = msg_sender (sample_env 5 1700000000)"
    by blast
  moreover
  from storage_frame [of "sample_env 5 1700000000" True "ClaimReward 1" sample_deployed] p alone
  have "rewardPool (transact (sample_env 5 1700000000) (ClaimReward 1) sample_deployed)
          \<noteq> rewardPool sample_deployed"
    by blast
  moreover
  from storage_frame [of sample_claims_again _ "ClaimReward 1" sample_streak]
  have "written_by [(9, ClaimReward 1), (9, ClaimReward 3)] sample_streak
     (transact sample_claims_again (ClaimReward 1) sample_streak)"
    by (simp add: sample_claims_again_def)
  ultimately show ?thesis using o u q by simp
qed

text \<open>
  C6, as stated, fails: a change of the contract's storage does not have to come from
  one of the seven listed functions. Address 7 sends 1 wei with empty calldata: \<^verbatim>\<open>receive\<close>
  runs and raises \<open>rewardPool\<close>.
\<close>

theorem seven_entry_points_counterexample:
  "storage (transact \<lparr>msg_sender = 7, msg_value = 1, block_timestamp = 1700000000,
                      recipient = Recipient [] True\<rparr> Receive sample_deployed)
     \<noteq> storage sample_deployed
 \<and> \<not> listed_entry_point Receive"
  by (simp add: storage_def transact_def execute.simps receive_def credit_def checked_add_def
      sample_deployed_simps)

text \<open>
  C6, amended. The seven listed functions, \<^verbatim>\<open>receive\<close>, \<^verbatim>\<open>fallback\<close> and the view
  functions are the whole external surface, and after the constructor has set \<open>owner\<close>
  and \<open>rewardPool\<close> every change of the contract's storage comes from a call of one of
  the seven functions or of \<^verbatim>\<open>receive\<close> or \<^verbatim>\<open>fallback\<close>: a view never changes it.
\<close>

theorem storage_changed_by:
  "storage (transact e c s) \<noteq> storage s \<longrightarrow>
     listed_entry_point c \<or> c = Receive \<or> c = Fallback"
proof (cases e c s rule: transact_cases)
  case (reverted err)
  then show ?thesis by simp
next
  case (returned s' fx)
  show ?thesis
  proof (cases c)
    case (View v)
    with returned view_unchanged [of e _ v s s' fx] show ?thesis by simp
  qed simp_all
qed

text \<open>
  C6 amended, at the sample history: a deposit of 1 wei through \<open>depositRewardPool\<close>
  changes the storage, and \<open>depositRewardPool\<close> is one of the seven.
\<close>

theorem storage_changed_by_witness:
  "storage (transact \<lparr>msg_sender = 7, msg_value = 1, block_timestamp = 1700000000,
                      recipient = Recipient [] True\<rparr> DepositRewardPool sample_deployed)
     \<noteq> storage sample_deployed
 \<and> (listed_entry_point DepositRewardPool \<or> DepositRewardPool = Receive
      \<or> DepositRewardPool = Fallback)"
proof -
  have "storage (transact \<lparr>msg_sender = 7, msg_value = 1, block_timestamp = 1700000000,
                      recipient = Recipient [] True\<rparr> DepositRewardPool sample_deployed)
     \<noteq> storage sample_deployed"
    by (simp add: storage_def transact_def execute.simps depositRewardPool_def credit_def
        checked_add_def sample_deployed_simps)
  with storage_changed_by [of "\<lparr>msg_sender = 7, msg_value = 1, block_timestamp = 1700000000,
                      recipient = Recipient [] True\<rparr>" DepositRewardPool sample_deployed]
  show ?thesis by blast
qed

subsection \<open>Reverts and ownership\<close>

text \<open>
  Every way a call can fail: a \<^verbatim>\<open>require\<close> of the source with its message, the
  compiler's guard of a function that is not \<^verbatim>\<open>payable\<close>, or an arithmetic overflow.
\<close>

lemma execute_errors:
  assumes "execute e c s = Inl err"
  shows "err \<in> {Panic 17, Revert [],
           Revert ''Already checked in today'',
           Revert ''Not eligible for reward'',
           Revert ''Reward already claimed for this milestone'',
           Revert ''Insufficient reward pool'',
           Revert ''Reward transfer failed'',
           Revert ''Deposit amount must be greater than 0'',
           Revert ''Only owner can call this'',
           Revert ''Insufficient balance in reward pool'',
           Revert ''Withdrawal failed'',
           Revert ''Emergency withdrawal failed'',
           Revert ''Invalid new owner address''}"
proof (cases c)
  case CheckIn
  with assms show ?thesis
    by (auto simp: execute.simps checkIn_def checked_add_def Let_def
        split: if_splits sum.splits prod.splits)
next
  case ResetCheckIn
  with assms show ?thesis
    by (auto simp: execute.simps resetCheckIn_def Let_def split: if_splits)
next
  case (ClaimReward d)
  with assms show ?thesis
    by (auto simp: execute.simps claimReward_def checked_sub_def Let_def
        split: if_splits sum.splits option.splits)
next
  case DepositRewardPool
  with assms show ?thesis
    by (auto simp: execute.simps depositRewardPool_def checked_add_def
        split: if_splits sum.splits)
next
  case (WithdrawRewardPool amount)
  with assms show ?thesis
    by (auto simp: execute.simps withdrawRewardPool_def onlyOwner_def checked_sub_def Let_def
        split: if_splits sum.splits option.splits)
next
  case EmergencyWithdraw
  with assms show ?thesis
    by (auto simp: execute.simps emergencyWithdraw_def onlyOwner_def Let_def
        split: if_splits option.splits)
next
  case (TransferOwnership n)
  with assms show ?thesis
    by (auto simp: execute.simps transferOwnership_def onlyOwner_def split: if_splits)
next
  case Receive
  with assms show ?thesis
    by (auto simp: execute.simps receive_def checked_add_def split: if_splits sum.splits)
next
  case Fallback
  with assms show ?thesis
    by (auto simp: execute.simps fallback_def checked_add_def split: if_splits sum.splits)
next
  case (View v)
  with assms show ?thesis
    by (cases v)
      (auto simp: execute.simps canCheckIn_def getNextCheckInTime_def checked_add_def
        split: if_splits sum.splits)
qed

text \<open>The effects of a successful \<open>checkIn\<close>, and the struct it leaves.\<close>

lemma checkIn_effects:
  assumes "checkIn sender timestamp s = Inr (s', fx)"
  shows "fx = (if unat (lastCheckInTime (userCheckIns s sender)) + 172800 < unat timestamp
               then [Emit (CheckInReset sender timestamp)] else [])
              @ [AllowThis, Allow sender, Emit (CheckedIn sender timestamp)]"
proof -
  let ?u = "userCheckIns s sender"
  from assms obtain nxt where nxt: "checked_add (lastCheckInTime ?u) CHECK_IN_INTERVAL = Inr nxt"
    by (auto simp: checkIn_def Let_def split: sum.splits)
  from assms nxt have le: "nxt \<le> timestamp"
    by (auto simp: checkIn_def Let_def split: sum.splits if_splits)
  from assms nxt le obtain lim where
    lim: "checked_add (lastCheckInTime ?u) (CHECK_IN_INTERVAL * 2) = Inr lim"
    by (auto simp: checkIn_def Let_def split: sum.splits if_splits)
  from checked_add_unat [OF lim] have ul: "unat lim = unat (lastCheckInTime ?u) + 172800"
    by (simp add: unat_CHECK_IN_INTERVAL2)
  have lt: "lim < timestamp \<longleftrightarrow> unat (lastCheckInTime ?u) + 172800 < unat timestamp"
    using ul by (simp add: word_less_nat_alt)
  from assms nxt le lim lt show ?thesis
    by (auto simp: checkIn_def Let_def split: if_splits)
qed

lemma checkIn_struct:
  assumes r: "checkIn sender timestamp s = Inr (s', fx)"
  shows "userCheckIns s' = (userCheckIns s)(sender :=
           \<lparr>encryptedDays =
              (if unat (lastCheckInTime (userCheckIns s sender)) + 172800 < unat timestamp
               then 1 else encryptedDays (userCheckIns s sender) + 1),
            lastCheckInTime = timestamp,
            lastClaimedDay =
              (if unat (lastCheckInTime (userCheckIns s sender)) + 172800 < unat timestamp
               then 0 else lastClaimedDay (userCheckIns s sender))\<rparr>)"
proof (rule ext)
  fix a
  show "userCheckIns s' a = ((userCheckIns s)(sender :=
           \<lparr>encryptedDays =
              (if unat (lastCheckInTime (userCheckIns s sender)) + 172800 < unat timestamp
               then 1 else encryptedDays (userCheckIns s sender) + 1),
            lastCheckInTime = timestamp,
            lastClaimedDay =
              (if unat (lastCheckInTime (userCheckIns s sender)) + 172800 < unat timestamp
               then 0 else lastClaimedDay (userCheckIns s sender))\<rparr>)) a"
  proof (cases "a = sender")
    case True
    have "userCheckIns s' sender =
           \<lparr>encryptedDays =
              (if unat (lastCheckInTime (userCheckIns s sender)) + 172800 < unat timestamp
               then 1 else encryptedDays (userCheckIns s sender) + 1),
            lastCheckInTime = timestamp,
            lastClaimedDay =
              (if unat (lastCheckInTime (userCheckIns s sender)) + 172800 < unat timestamp
               then 0 else lastClaimedDay (userCheckIns s sender))\<rparr>"
      by (rule UserCheckIn.equality) (simp_all add: checkIn_Inr(3,4,5) [OF r])
    with True show ?thesis by simp
  next
    case False
    with checkIn_Inr(6) [OF r False] show ?thesis by simp
  qed
qed

lemma resetCheckIn_struct:
  assumes r: "resetCheckIn sender timestamp s = Inr (s', fx)"
  shows "userCheckIns s' = (userCheckIns s)(sender :=
           \<lparr>encryptedDays = 0, lastCheckInTime = 0, lastClaimedDay = 0\<rparr>)"
    and "fx = [Emit (CheckInReset sender timestamp)]"
  using r by (auto simp: resetCheckIn_def Let_def FHE_asEuint32_def)

text \<open>What each function has done when it returns.\<close>

lemma execute_completes:
  assumes r: "execute e c s = Inr (s', fx)"
  shows "c = CheckIn \<Longrightarrow>
            userCheckIns s' = (userCheckIns s)(msg_sender e :=
               \<lparr>encryptedDays =
                  (if unat (lastCheckInTime (userCheckIns s (msg_sender e))) + 172800 < unat (block_timestamp e)
                   then 1 else encryptedDays (userCheckIns s (msg_sender e)) + 1),
                lastCheckInTime = block_timestamp e,
                lastClaimedDay =
                  (if unat (lastCheckInTime (userCheckIns s (msg_sender e))) + 172800 < unat (block_timestamp e)
                   then 0 else lastClaimedDay (userCheckIns s (msg_sender e)))\<rparr>)
          \<and> owner s' = owner s \<and> rewardPool s' = rewardPool s \<and> balance s' = balance s
          \<and> fx = (if unat (lastCheckInTime (userCheckIns s (msg_sender e))) + 172800 < unat (block_timestamp e)
                   then [Emit (CheckInReset (msg_sender e) (block_timestamp e))] else [])
                  @ [AllowThis, Allow (msg_sender e),
                     Emit (CheckedIn (msg_sender e) (block_timestamp e))]"
    and "c = ResetCheckIn \<Longrightarrow>
            userCheckIns s' = (userCheckIns s)(msg_sender e :=
               \<lparr>encryptedDays = 0, lastCheckInTime = 0, lastClaimedDay = 0\<rparr>)
          \<and> owner s' = owner s \<and> rewardPool s' = rewardPool s \<and> balance s' = balance s
          \<and> fx = [Emit (CheckInReset (msg_sender e) (block_timestamp e))]"
    and "c = ClaimReward currentDay \<Longrightarrow>
            (\<exists>nested.
               recipient_runs (block_timestamp e) (recipient e)
                 (s\<lparr>userCheckIns := (userCheckIns s)(msg_sender e :=
                       (userCheckIns s (msg_sender e))\<lparr>lastClaimedDay := currentDay\<rparr>),
                    rewardPool := rewardPool s - REWARD_AMOUNT,
                    balance := balance s - 100000000000000\<rparr>) = Some (s', nested)
             \<and> fx = Send (msg_sender e) 100000000000000 # nested
                      @ [Emit (RewardClaimed (msg_sender e) currentDay REWARD_AMOUNT)])
          \<and> unat (rewardPool s - REWARD_AMOUNT) + 100000000000000 = unat (rewardPool s)
          \<and> 100000000000000 \<le> balance s"
    and "c = DepositRewardPool \<Longrightarrow>
            0 < msg_value e
          \<and> owner s' = owner s \<and> userCheckIns s' = userCheckIns s
          \<and> rewardPool s' = rewardPool s + msg_value e
          \<and> unat (rewardPool s') = unat (rewardPool s) + unat (msg_value e)
          \<and> balance s' = balance s + unat (msg_value e)
          \<and> fx = [Emit (RewardPoolDeposited (msg_sender e) (msg_value e))]"
    and "c = WithdrawRewardPool amount \<Longrightarrow>
            (\<exists>nested.
               recipient_runs (block_timestamp e) (recipient e)
                 (s\<lparr>rewardPool := rewardPool s - amount,
                    balance := balance s - unat amount\<rparr>) = Some (s', nested)
             \<and> fx = Send (owner s) (unat amount) # nested
                      @ [Emit (RewardPoolWithdrawn (owner s') amount)])
          \<and> unat (rewardPool s - amount) + unat amount = unat (rewardPool s)
          \<and> unat amount \<le> balance s"
    and "c = EmergencyWithdraw \<Longrightarrow>
            (\<exists>nested.
               recipient_runs (block_timestamp e) (recipient e)
                 (s\<lparr>rewardPool := 0, balance := 0\<rparr>) = Some (s', nested)
             \<and> fx = Send (owner s) (balance s) # nested
                      @ [Emit (RewardPoolWithdrawn (owner s') (of_nat (balance s)))])"
    and "c = TransferOwnership newOwner \<Longrightarrow>
            s' = s\<lparr>owner := newOwner\<rparr> \<and> fx = []"
    and "c = Receive \<Longrightarrow>
            owner s' = owner s \<and> userCheckIns s' = userCheckIns s
          \<and> rewardPool s' = rewardPool s + msg_value e
          \<and> unat (rewardPool s') = unat (rewardPool s) + unat (msg_value e)
          \<and> balance s' = balance s + unat (msg_value e)
          \<and> fx = [Emit (RewardPoolDeposited (msg_sender e) (msg_value e))]"
    and "c = Fallback \<Longrightarrow>
            owner s' = owner s \<and> userCheckIns s' = userCheckIns s
          \<and> rewardPool s' = rewardPool s + msg_value e
          \<and> unat (rewardPool s') = unat (rewardPool s) + unat (msg_value e)
          \<and> balance s' = balance s + unat (msg_value e)
          \<and> fx = [Emit (RewardPoolDeposited (msg_sender e) (msg_value e))]"
    and "c = View v \<Longrightarrow>
            s' = s \<and> fx = []"
proof -
  note d = execute_Inr [OF r]
  from r have pay: "payable c \<or> msg_value e = 0"
    by (auto simp: execute.simps split: if_splits)
  show "c = CheckIn \<Longrightarrow>
            userCheckIns s' = (userCheckIns s)(msg_sender e :=
               \<lparr>encryptedDays =
                  (if unat (lastCheckInTime (userCheckIns s (msg_sender e))) + 172800 < unat (block_timestamp e)
                   then 1 else encryptedDays (userCheckIns s (msg_sender e)) + 1),
                lastCheckInTime = block_timestamp e,
                lastClaimedDay =
                  (if unat (lastCheckInTime (userCheckIns s (msg_sender e))) + 172800 < unat (block_timestamp e)
                   then 0 else lastClaimedDay (userCheckIns s (msg_sender e)))\<rparr>)
          \<and> owner s' = owner s \<and> rewardPool s' = rewardPool s \<and> balance s' = balance s
          \<and> fx = (if unat (lastCheckInTime (userCheckIns s (msg_sender e))) + 172800 < unat (block_timestamp e)
                   then [Emit (CheckInReset (msg_sender e) (block_timestamp e))] else [])
                  @ [AllowThis, Allow (msg_sender e),
                     Emit (CheckedIn (msg_sender e) (block_timestamp e))]"
  proof -
    assume "c = CheckIn"
    with d have c: "checkIn (msg_sender e) (block_timestamp e) s = Inr (s', fx)" by simp
    from checkIn_struct [OF c] checkIn_Inr(7,8,9) [OF c] checkIn_effects [OF c]
    show ?thesis by simp
  qed
  show "c = ResetCheckIn \<Longrightarrow>
            userCheckIns s' = (userCheckIns s)(msg_sender e :=
               \<lparr>encryptedDays = 0, lastCheckInTime = 0, lastClaimedDay = 0\<rparr>)
          \<and> owner s' = owner s \<and> rewardPool s' = rewardPool s \<and> balance s' = balance s
          \<and> fx = [Emit (CheckInReset (msg_sender e) (block_timestamp e))]"
  proof -
    assume "c = ResetCheckIn"
    with d have c: "resetCheckIn (msg_sender e) (block_timestamp e) s = Inr (s', fx)" by simp
    from resetCheckIn_struct [OF c] resetCheckIn_Inr(3,4,5) [OF c]
    show ?thesis by simp
  qed
  show "c = ClaimReward currentDay \<Longrightarrow>
            (\<exists>nested.
               recipient_runs (block_timestamp e) (recipient e)
                 (s\<lparr>userCheckIns := (userCheckIns s)(msg_sender e :=
                       (userCheckIns s (msg_sender e))\<lparr>lastClaimedDay := currentDay\<rparr>),
                    rewardPool := rewardPool s - REWARD_AMOUNT,
                    balance := balance s - 100000000000000\<rparr>) = Some (s', nested)
             \<and> fx = Send (msg_sender e) 100000000000000 # nested
                      @ [Emit (RewardClaimed (msg_sender e) currentDay REWARD_AMOUNT)])
          \<and> unat (rewardPool s - REWARD_AMOUNT) + 100000000000000 = unat (rewardPool s)
          \<and> 100000000000000 \<le> balance s" for currentDay
  proof -
    assume "c = ClaimReward currentDay"
    with d have "claimReward (msg_sender e) (recipient_runs (block_timestamp e) (recipient e))
                   currentDay s = Inr (s', fx)"
      by simp
    then show ?thesis by (rule claimReward_Inr) blast
  qed
  show "c = DepositRewardPool \<Longrightarrow>
            0 < msg_value e
          \<and> owner s' = owner s \<and> userCheckIns s' = userCheckIns s
          \<and> rewardPool s' = rewardPool s + msg_value e
          \<and> unat (rewardPool s') = unat (rewardPool s) + unat (msg_value e)
          \<and> balance s' = balance s + unat (msg_value e)
          \<and> fx = [Emit (RewardPoolDeposited (msg_sender e) (msg_value e))]"
  proof -
    assume "c = DepositRewardPool"
    with d have c: "depositRewardPool (msg_sender e) (msg_value e) (credit (msg_value e) s)
                      = Inr (s', fx)"
      by simp
    from depositRewardPool_Inr [OF c] show ?thesis by (simp add: credit_def)
  qed
  show "c = WithdrawRewardPool amount \<Longrightarrow>
            (\<exists>nested.
               recipient_runs (block_timestamp e) (recipient e)
                 (s\<lparr>rewardPool := rewardPool s - amount,
                    balance := balance s - unat amount\<rparr>) = Some (s', nested)
             \<and> fx = Send (owner s) (unat amount) # nested
                      @ [Emit (RewardPoolWithdrawn (owner s') amount)])
          \<and> unat (rewardPool s - amount) + unat amount = unat (rewardPool s)
          \<and> unat amount \<le> balance s" for amount
  proof -
    assume "c = WithdrawRewardPool amount"
    with d have "withdrawRewardPool (msg_sender e)
                   (recipient_runs (block_timestamp e) (recipient e)) amount s = Inr (s', fx)"
      by simp
    then show ?thesis by (rule withdrawRewardPool_Inr) blast
  qed
  show "c = EmergencyWithdraw \<Longrightarrow>
            (\<exists>nested.
               recipient_runs (block_timestamp e) (recipient e)
                 (s\<lparr>rewardPool := 0, balance := 0\<rparr>) = Some (s', nested)
             \<and> fx = Send (owner s) (balance s) # nested
                      @ [Emit (RewardPoolWithdrawn (owner s') (of_nat (balance s)))])"
  proof -
    assume "c = EmergencyWithdraw"
    with d have "emergencyWithdraw (msg_sender e)
                   (recipient_runs (block_timestamp e) (recipient e)) s = Inr (s', fx)"
      by simp
    then show ?thesis by (rule emergencyWithdraw_Inr) blast
  qed
  show "c = TransferOwnership newOwner \<Longrightarrow>
            s' = s\<lparr>owner := newOwner\<rparr> \<and> fx = []" for newOwner
  proof -
    assume "c = TransferOwnership newOwner"
    with d have c: "transferOwnership (msg_sender e) newOwner s = Inr (s', fx)" by simp
    from transferOwnership_Inr(3,4) [OF c] show ?thesis by simp
  qed
  show "c = Receive \<Longrightarrow>
            owner s' = owner s \<and> userCheckIns s' = userCheckIns s
          \<and> rewardPool s' = rewardPool s + msg_value e
          \<and> unat (rewardPool s') = unat (rewardPool s) + unat (msg_value e)
          \<and> balance s' = balance s + unat (msg_value e)
          \<and> fx = [Emit (RewardPoolDeposited (msg_sender e) (msg_value e))]"
  proof -
    assume "c = Receive"
    with d have c: "receive (msg_sender e) (msg_value e) (credit (msg_value e) s) = Inr (s', fx)"
      by simp
    from receive_Inr [OF c] show ?thesis by (simp add: credit_def)
  qed
  show "c = Fallback \<Longrightarrow>
            owner s' = owner s \<and> userCheckIns s' = userCheckIns s
          \<and> rewardPool s' = rewardPool s + msg_value e
          \<and> unat (rewardPool s') = unat (rewardPool s) + unat (msg_value e)
          \<and> balance s' = balance s + unat (msg_value e)
          \<and> fx = [Emit (RewardPoolDeposited (msg_sender e) (msg_value e))]"
  proof -
    assume "c = Fallback"
    with d have c: "fallback (msg_sender e) (msg_value e) (credit (msg_value e) s) = Inr (s', fx)"
      by simp
    from fallback_Inr [OF c] show ?thesis by (simp add: credit_def)
  qed
  show "c = View v \<Longrightarrow>
            s' = s \<and> fx = []" for v
  proof -
    assume "c = View v"
    with d view_unchanged [of e _ v s s' fx] show ?thesis by simp
  qed
qed

text \<open>
  C7. The only error handling of the source is its \<^verbatim>\<open>require\<close> clauses: a call that
  fails reverts, with the message of one of them, with no message (ether sent to a
  function that is not \<^verbatim>\<open>payable\<close>) or with \<^verbatim>\<open>Panic(0x11)\<close> (an overflow), and then the
  whole state (every user's struct, \<open>rewardPool\<close>, \<open>owner\<close>, and the balance) is exactly as
  it was before the call: of the writes made before the failing guard nothing is kept.
  A call that does not revert has done all of its work. In particular the three
  functions that pay out return only when the transfer went through: they have
  written to the state when they make the low-level call, whose failure by itself
  reverts nothing, and the \<^verbatim>\<open>require\<close> that follows it turns the failure into a revert.
\<close>

theorem call_completes_or_reverts:
  "(execute e c s = Inl err \<longrightarrow>
       transact e c s = s
     \<and> err \<in> {Panic 17, Revert [],
           Revert ''Already checked in today'',
           Revert ''Not eligible for reward'',
           Revert ''Reward already claimed for this milestone'',
           Revert ''Insufficient reward pool'',
           Revert ''Reward transfer failed'',
           Revert ''Deposit amount must be greater than 0'',
           Revert ''Only owner can call this'',
           Revert ''Insufficient balance in reward pool'',
           Revert ''Withdrawal failed'',
           Revert ''Emergency withdrawal failed'',
           Revert ''Invalid new owner address''})
 \<and> (execute e c s = Inr (s', fx) \<longrightarrow>
       transact e c s = s'
     \<and> (case c of
          CheckIn \<Rightarrow>
            userCheckIns s' = (userCheckIns s)(msg_sender e :=
               \<lparr>encryptedDays =
                  (if unat (lastCheckInTime (userCheckIns s (msg_sender e))) + 172800 < unat (block_timestamp e)
                   then 1 else encryptedDays (userCheckIns s (msg_sender e)) + 1),
                lastCheckInTime = block_timestamp e,
                lastClaimedDay =
                  (if unat (lastCheckInTime (userCheckIns s (msg_sender e))) + 172800 < unat (block_timestamp e)
                   then 0 else lastClaimedDay (userCheckIns s (msg_sender e)))\<rparr>)
          \<and> owner s' = owner s \<and> rewardPool s' = rewardPool s \<and> balance s' = balance s
          \<and> fx = (if unat (lastCheckInTime (userCheckIns s (msg_sender e))) + 172800 < unat (block_timestamp e)
                   then [Emit (CheckInReset (msg_sender e) (block_timestamp e))] else [])
                  @ [AllowThis, Allow (msg_sender e),
                     Emit (CheckedIn (msg_sender e) (block_timestamp e))]
        | ResetCheckIn \<Rightarrow>
            userCheckIns s' = (userCheckIns s)(msg_sender e :=
               \<lparr>encryptedDays = 0, lastCheckInTime = 0, lastClaimedDay = 0\<rparr>)
          \<and> owner s' = owner s \<and> rewardPool s' = rewardPool s \<and> balance s' = balance s
          \<and> fx = [Emit (CheckInReset (msg_sender e) (block_timestamp e))]
        | ClaimReward currentDay \<Rightarrow>
            (\<exists>nested.
               recipient_runs (block_timestamp e) (recipient e)
                 (s\<lparr>userCheckIns := (userCheckIns s)(msg_sender e :=
                       (userCheckIns s (msg_sender e))\<lparr>lastClaimedDay := currentDay\<rparr>),
                    rewardPool := rewardPool s - REWARD_AMOUNT,
                    balance := balance s - 100000000000000\<rparr>) = Some (s', nested)
             \<and> fx = Send (msg_sender e) 100000000000000 # nested
                      @ [Emit (RewardClaimed (msg_sender e) currentDay REWARD_AMOUNT)])
          \<and> unat (rewardPool s - REWARD_AMOUNT) + 100000000000000 = unat (rewardPool s)
          \<and> 100000000000000 \<le> balance s
        | DepositRewardPool \<Rightarrow>
            0 < msg_value e
          \<and> owner s' = owner s \<and> userCheckIns s' = userCheckIns s
          \<and> rewardPool s' = rewardPool s + msg_value e
          \<and> unat (rewardPool s') = unat (rewardPool s) + unat (msg_value e)
          \<and> balance s' = balance s + unat (msg_value e)
          \<and> fx = [Emit (RewardPoolDeposited (msg_sender e) (msg_value e))]
        | WithdrawRewardPool amount \<Rightarrow>
            (\<exists>nested.
               recipient_runs (block_timestamp e) (recipient e)
                 (s\<lparr>rewardPool := rewardPool s - amount,
                    balance := balance s - unat amount\<rparr>) = Some (s', nested)
             \<and> fx = Send (owner s) (unat amount) # nested
                      @ [Emit (RewardPoolWithdrawn (owner s') amount)])
          \<and> unat (rewardPool s - amount) + unat amount = unat (rewardPool s)
          \<and> unat amount \<le> balance s
        | EmergencyWithdraw \<Rightarrow>
            (\<exists>nested.
               recipient_runs (block_timestamp e) (recipient e)
                 (s\<lparr>rewardPool := 0, balance := 0\<rparr>) = Some (s', nested)
             \<and> fx = Send (owner s) (balance s) # nested
                      @ [Emit (RewardPoolWithdrawn (owner s') (of_nat (balance s)))])
        | TransferOwnership newOwner \<Rightarrow>
            s' = s\<lparr>owner := newOwner\<rparr> \<and> fx = []
        | Receive \<Rightarrow>
            owner s' = owner s \<and> userCheckIns s' = userCheckIns s
          \<and> rewardPool s' = rewardPool s + msg_value e
          \<and> unat (rewardPool s') = unat (rewardPool s) + unat (msg_value e)
          \<and> balance s' = balance s + unat (msg_value e)
          \<and> fx = [Emit (RewardPoolDeposited (msg_sender e) (msg_value e))]
        | Fallback \<Rightarrow>
            owner s' = owner s \<and> userCheckIns s' = userCheckIns s
          \<and> rewardPool s' = rewardPool s + msg_value e
          \<and> unat (rewardPool s') = unat (rewardPool s) + unat (msg_value e)
          \<and> balance s' = balance s + unat (msg_value e)
          \<and> fx = [Emit (RewardPoolDeposited (msg_sender e) (msg_value e))]
        | View v \<Rightarrow>
            s' = s \<and> fx = []))
 \<and> (pays_out c \<and> recipient e = Recipient calls False \<longrightarrow>
       (\<exists>err. execute e c s = Inl err) \<and> transact e c s = s)"
proof -
  have reverts: "transact e c s = s
     \<and> err \<in> {Panic 17, Revert [],
           Revert ''Already checked in today'',
           Revert ''Not eligible for reward'',
           Revert ''Reward already claimed for this milestone'',
           Revert ''Insufficient reward pool'',
           Revert ''Reward transfer failed'',
           Revert ''Deposit amount must be greater than 0'',
           Revert ''Only owner can call this'',
           Revert ''Insufficient balance in reward pool'',
           Revert ''Withdrawal failed'',
           Revert ''Emergency withdrawal failed'',
           Revert ''Invalid new owner address''}"
    if r: "execute e c s = Inl err"
    using transact_reverted [OF r] execute_errors [OF r] by simp
  have completes: "transact e c s = s'
     \<and> (case c of
          CheckIn \<Rightarrow>
            userCheckIns s' = (userCheckIns s)(msg_sender e :=
               \<lparr>encryptedDays =
                  (if unat (lastCheckInTime (userCheckIns s (msg_sender e))) + 172800 < unat (block_timestamp e)
                   then 1 else encryptedDays (userCheckIns s (msg_sender e)) + 1),
                lastCheckInTime = block_timestamp e,
                lastClaimedDay =
                  (if unat (lastCheckInTime (userCheckIns s (msg_sender e))) + 172800 < unat (block_timestamp e)
                   then 0 else lastClaimedDay (userCheckIns s (msg_sender e)))\<rparr>)
          \<and> owner s' = owner s \<and> rewardPool s' = rewardPool s \<and> balance s' = balance s
          \<and> fx = (if unat (lastCheckInTime (userCheckIns s (msg_sender e))) + 172800 < unat (block_timestamp e)
                   then [Emit (CheckInReset (msg_sender e) (block_timestamp e))] else [])
                  @ [AllowThis, Allow (msg_sender e),
                     Emit (CheckedIn (msg_sender e) (block_timestamp e))]
        | ResetCheckIn \<Rightarrow>
            userCheckIns s' = (userCheckIns s)(msg_sender e :=
               \<lparr>encryptedDays = 0, lastCheckInTime = 0, lastClaimedDay = 0\<rparr>)
          \<and> owner s' = owner s \<and> rewardPool s' = rewardPool s \<and> balance s' = balance s
          \<and> fx = [Emit (CheckInReset (msg_sender e) (block_timestamp e))]
        | ClaimReward currentDay \<Rightarrow>
            (\<exists>nested.
               recipient_runs (block_timestamp e) (recipient e)
                 (s\<lparr>userCheckIns := (userCheckIns s)(msg_sender e :=
                       (userCheckIns s (msg_sender e))\<lparr>lastClaimedDay := currentDay\<rparr>),
                    rewardPool := rewardPool s - REWARD_AMOUNT,
                    balance := balance s - 100000000000000\<rparr>) = Some (s', nested)
             \<and> fx = Send (msg_sender e) 100000000000000 # nested
                      @ [Emit (RewardClaimed (msg_sender e) currentDay REWARD_AMOUNT)])
          \<and> unat (rewardPool s - REWARD_AMOUNT) + 100000000000000 = unat (rewardPool s)
          \<and> 100000000000000 \<le> balance s
        | DepositRewardPool \<Rightarrow>
            0 < msg_value e
          \<and> owner s' = owner s \<and> userCheckIns s' = userCheckIns s
          \<and> rewardPool s' = rewardPool s + msg_value e
          \<and> unat (rewardPool s') = unat (rewardPool s) + unat (msg_value e)
          \<and> balance s' = balance s + unat (msg_value e)
          \<and> fx = [Emit (RewardPoolDeposited (msg_sender e) (msg_value e))]
        | WithdrawRewardPool amount \<Rightarrow>
            (\<exists>nested.
               recipient_runs (block_timestamp e) (recipient e)
                 (s\<lparr>rewardPool := rewardPool s - amount,
                    balance := balance s - unat amount\<rparr>) = Some (s', nested)
             \<and> fx = Send (owner s) (unat amount) # nested
                      @ [Emit (RewardPoolWithdrawn (owner s') amount)])
          \<and> unat (rewardPool s - amount) + unat amount = unat (rewardPool s)
          \<and> unat amount \<le> balance s
        | EmergencyWithdraw \<Rightarrow>
            (\<exists>nested.
               recipient_runs (block_timestamp e) (recipient e)
                 (s\<lparr>rewardPool := 0, balance := 0\<rparr>) = Some (s', nested)
             \<and> fx = Send (owner s) (balance s) # nested
                      @ [Emit (RewardPoolWithdrawn (owner s') (of_nat (balance s)))])
        | TransferOwnership newOwner \<Rightarrow>
            s' = s\<lparr>owner := newOwner\<rparr> \<and> fx = []
        | Receive \<Rightarrow>
            owner s' = owner s \<and> userCheckIns s' = userCheckIns s
          \<and> rewardPool s' = rewardPool s + msg_value e
          \<and> unat (rewardPool s') = unat (rewardPool s) + unat (msg_value e)
          \<and> balance s' = balance s + unat (msg_value e)
          \<and> fx = [Emit (RewardPoolDeposited (msg_sender e) (msg_value e))]
        | Fallback \<Rightarrow>
            owner s' = owner s \<and> userCheckIns s' = userCheckIns s
          \<and> rewardPool s' = rewardPool s + msg_value e
          \<and> unat (rewardPool s') = unat (rewardPool s) + unat (msg_value e)
          \<and> balance s' = balance s + unat (msg_value e)
          \<and> fx = [Emit (RewardPoolDeposited (msg_sender e) (msg_value e))]
        | View v \<Rightarrow>
            s' = s \<and> fx = [])"
    if r: "execute e c s = Inr (s', fx)"
  proof -
    note fin = execute_completes [OF r]
    have "(case c of
          CheckIn \<Rightarrow>
            userCheckIns s' = (userCheckIns s)(msg_sender e :=
               \<lparr>encryptedDays =
                  (if unat (lastCheckInTime (userCheckIns s (msg_sender e))) + 172800 < unat (block_timestamp e)
                   then 1 else encryptedDays (userCheckIns s (msg_sender e)) + 1),
                lastCheckInTime = block_timestamp e,
                lastClaimedDay =
                  (if unat (lastCheckInTime (userCheckIns s (msg_sender e))) + 172800 < unat (block_timestamp e)
                   then 0 else lastClaimedDay (userCheckIns s (msg_sender e)))\<rparr>)
          \<and> owner s' = owner s \<and> rewardPool s' = rewardPool s \<and> balance s' = balance s
          \<and> fx = (if unat (lastCheckInTime (userCheckIns s (msg_sender e))) + 172800 < unat (block_timestamp e)
                   then [Emit (CheckInReset (msg_sender e) (block_timestamp e))] else [])
                  @ [AllowThis, Allow (msg_sender e),
                     Emit (CheckedIn (msg_sender e) (block_timestamp e))]
        | ResetCheckIn \<Rightarrow>
            userCheckIns s' = (userCheckIns s)(msg_sender e :=
               \<lparr>encryptedDays = 0, lastCheckInTime = 0, lastClaimedDay = 0\<rparr>)
          \<and> owner s' = owner s \<and> rewardPool s' = rewardPool s \<and> balance s' = balance s
          \<and> fx = [Emit (CheckInReset (msg_sender e) (block_timestamp e))]
        | ClaimReward currentDay \<Rightarrow>
            (\<exists>nested.
               recipient_runs (block_timestamp e) (recipient e)
                 (s\<lparr>userCheckIns := (userCheckIns s)(msg_sender e :=
                       (userCheckIns s (msg_sender e))\<lparr>lastClaimedDay := currentDay\<rparr>),
                    rewardPool := rewardPool s - REWARD_AMOUNT,
                    balance := balance s - 100000000000000\<rparr>) = Some (s', nested)
             \<and> fx = Send (msg_sender e) 100000000000000 # nested
                      @ [Emit (RewardClaimed (msg_sender e) currentDay REWARD_AMOUNT)])
          \<and> unat (rewardPool s - REWARD_AMOUNT) + 100000000000000 = unat (rewardPool s)
          \<and> 100000000000000 \<le> balance s
        | DepositRewardPool \<Rightarrow>
            0 < msg_value e
          \<and> owner s' = owner s \<and> userCheckIns s' = userCheckIns s
          \<and> rewardPool s' = rewardPool s + msg_value e
          \<and> unat (rewardPool s') = unat (rewardPool s) + unat (msg_value e)
          \<and> balance s' = balance s + unat (msg_value e)
          \<and> fx = [Emit (RewardPoolDeposited (msg_sender e) (msg_value e))]
        | WithdrawRewardPool amount \<Rightarrow>
            (\<exists>nested.
               recipient_runs (block_timestamp e) (recipient e)
                 (s\<lparr>rewardPool := rewardPool s - amount,
                    balance := balance s - unat amount\<rparr>) = Some (s', nested)
             \<and> fx = Send (owner s) (unat amount) # nested
                      @ [Emit (RewardPoolWithdrawn (owner s') amount)])
          \<and> unat (rewardPool s - amount) + unat amount = unat (rewardPool s)
          \<and> unat amount \<le> balance s
        | EmergencyWithdraw \<Rightarrow>
            (\<exists>nested.
               recipient_runs (block_timestamp e) (recipient e)
                 (s\<lparr>rewardPool := 0, balance := 0\<rparr>) = Some (s', nested)
             \<and> fx = Send (owner s) (balance s) # nested
                      @ [Emit (RewardPoolWithdrawn (owner s') (of_nat (balance s)))])
        | TransferOwnership newOwner \<Rightarrow>
            s' = s\<lparr>owner := newOwner\<rparr> \<and> fx = []
        | Receive \<Rightarrow>
            owner s' = owner s \<and> userCheckIns s' = userCheckIns s
          \<and> rewardPool s' = rewardPool s + msg_value e
          \<and> unat (rewardPool s') = unat (rewardPool s) + unat (msg_value e)
          \<and> balance s' = balance s + unat (msg_value e)
          \<and> fx = [Emit (RewardPoolDeposited (msg_sender e) (msg_value e))]
        | Fallback \<Rightarrow>
            owner s' = owner s \<and> userCheckIns s' = userCheckIns s
          \<and> rewardPool s' = rewardPool s + msg_value e
          \<and> unat (rewardPool s') = unat (rewardPool s) + unat (msg_value e)
          \<and> balance s' = balance s + unat (msg_value e)
          \<and> fx = [Emit (RewardPoolDeposited (msg_sender e) (msg_value e))]
        | View v \<Rightarrow>
            s' = s \<and> fx = [])"
    proof (cases c)
      case CheckIn
      show ?thesis unfolding CheckIn call.case by (rule fin(1) [OF CheckIn])
    next
      case ResetCheckIn
      show ?thesis unfolding ResetCheckIn call.case by (rule fin(2) [OF ResetCheckIn])
    next
      case (ClaimReward d)
      show ?thesis unfolding ClaimReward call.case by (rule fin(3) [OF ClaimReward])
    next
      case DepositRewardPool
      show ?thesis unfolding DepositRewardPool call.case by (rule fin(4) [OF DepositRewardPool])
    next
      case (WithdrawRewardPool amount)
      show ?thesis unfolding WithdrawRewardPool call.case by (rule fin(5) [OF WithdrawRewardPool])
    next
      case EmergencyWithdraw
      show ?thesis unfolding EmergencyWithdraw call.case by (rule fin(6) [OF EmergencyWithdraw])
    next
      case (TransferOwnership n)
      show ?thesis unfolding TransferOwnership call.case by (rule fin(7) [OF TransferOwnership])
    next
      case Receive
      show ?thesis unfolding Receive call.case by (rule fin(8) [OF Receive])
    next
      case Fallback
      show ?thesis unfolding Fallback call.case by (rule fin(9) [OF Fallback])
    next
      case (View v)
      show ?thesis unfolding View call.case by (rule fin(10) [OF View])
    qed
    with transact_returned [OF r] show ?thesis by simp
  qed
  have unpaid: "(\<exists>err. execute e c s = Inl err) \<and> transact e c s = s"
    if p: "pays_out c \<and> recipient e = Recipient calls False"
  proof -
    from p have "\<exists>err. execute e c s = Inl err"
      by (cases c)
        (auto simp: execute.simps claimReward_def withdrawRewardPool_def emergencyWithdraw_def
          onlyOwner_def send_def Let_def checked_sub_def split: sum.splits)
    then show ?thesis by (auto dest: transact_reverted)
  qed
  from reverts completes unpaid show ?thesis by blast
qed

text \<open>
  C7, at the sample history: address 5 claims for day 1 but refuses the ether. The
  function has already written \<open>lastClaimedDay\<close> and \<open>rewardPool\<close> when the transfer
  fails; the call reverts and the state is the one before the call. So it is when the
  owner withdraws 1000 wei and refuses them. The claim of address 9, which claims
  again when it is paid, completes: its first effect is the payment and its last the
  event of the outer claim. The owner's transfer of the ownership to address 2
  completes and changes nothing but \<open>owner\<close>.
\<close>

theorem call_completes_or_reverts_witness:
  "execute \<lparr>msg_sender = 5, msg_value = 0, block_timestamp = 1700259201,
            recipient = Recipient [] False\<rparr> (ClaimReward 1) sample_streak
     = Inl (Revert ''Reward transfer failed'')
 \<and> transact \<lparr>msg_sender = 5, msg_value = 0, block_timestamp = 1700259201,
             recipient = Recipient [] False\<rparr> (ClaimReward 1) sample_streak
     = sample_streak
 \<and> transact \<lparr>msg_sender = 1, msg_value = 0, block_timestamp = 1700259201,
             recipient = Recipient [] False\<rparr> (WithdrawRewardPool 1000) sample_streak
     = sample_streak
 \<and> execute sample_claims_again (ClaimReward 1) sample_streak
     = Inr (projr (execute sample_claims_again (ClaimReward 1) sample_streak))
 \<and> transact sample_claims_again (ClaimReward 1) sample_streak
     = fst (projr (execute sample_claims_again (ClaimReward 1) sample_streak))
 \<and> hd (snd (projr (execute sample_claims_again (ClaimReward 1) sample_streak)))
     = Send 9 100000000000000
 \<and> last (snd (projr (execute sample_claims_again (ClaimReward 1) sample_streak)))
     = Emit (RewardClaimed 9 1 REWARD_AMOUNT)
 \<and> execute (sample_env 1 1700259201) (TransferOwnership 2) sample_streak
     = Inr (sample_streak\<lparr>owner := 2\<rparr>, [])
 \<and> transact (sample_env 1 1700259201) (TransferOwnership 2) sample_streak
     = sample_streak\<lparr>owner := 2\<rparr>"
proof -
  let ?refuse = "\<lparr>msg_sender = 5, msg_value = 0, block_timestamp = 1700259201,
                   recipient = Recipient [] False\<rparr>"
  let ?r = "execute sample_claims_again (ClaimReward 1) sample_streak"
  let ?o = "execute (sample_env 1 1700259201) (TransferOwnership 2) sample_streak"
  have "execute ?refuse (ClaimReward 1) sample_streak = Inl (Revert ''Reward transfer failed'')"
    by (simp add: execute.simps claimReward_def send_def Let_def
        checked_sub_def REWARD_AMOUNT_def REWARD_INTERVAL_def sample_streak_simps)
  with call_completes_or_reverts
         [of ?refuse "ClaimReward 1" sample_streak "Revert ''Reward transfer failed''"]
  have refused: "execute ?refuse (ClaimReward 1) sample_streak
                  = Inl (Revert ''Reward transfer failed'')
             \<and> transact ?refuse (ClaimReward 1) sample_streak = sample_streak"
    by blast
  from call_completes_or_reverts
         [of "\<lparr>msg_sender = 1, msg_value = 0, block_timestamp = 1700259201,
               recipient = Recipient [] False\<rparr>" "WithdrawRewardPool 1000" sample_streak
             "Panic 17" sample_streak "[]" "[]"]
  have unpaid: "transact \<lparr>msg_sender = 1, msg_value = 0, block_timestamp = 1700259201,
             recipient = Recipient [] False\<rparr> (WithdrawRewardPool 1000) sample_streak
     = sample_streak"
    by simp
  have "\<exists>r. ?r = Inr r"
    by (simp add: sample_claims_again_def execute.simps claimReward_def send_def Let_def
        checked_sub_def REWARD_AMOUNT_def REWARD_INTERVAL_def sample_streak_simps)
  then have r: "?r = Inr (projr ?r)"
    by auto
  then have "?r = Inr (fst (projr ?r), snd (projr ?r))"
    by simp
  with call_completes_or_reverts
         [of sample_claims_again "ClaimReward 1" sample_streak "Panic 17"
             "fst (projr ?r)" "snd (projr ?r)"]
  have "transact sample_claims_again (ClaimReward 1) sample_streak = fst (projr ?r)
      \<and> (\<exists>nested. snd (projr ?r) = Send (msg_sender sample_claims_again) 100000000000000 # nested
            @ [Emit (RewardClaimed (msg_sender sample_claims_again) 1 REWARD_AMOUNT)])"
    by auto
  then have claimed: "transact sample_claims_again (ClaimReward 1) sample_streak = fst (projr ?r)
      \<and> hd (snd (projr ?r)) = Send 9 100000000000000
      \<and> last (snd (projr ?r)) = Emit (RewardClaimed 9 1 REWARD_AMOUNT)"
    by (auto simp: sample_claims_again_def)
  have "\<exists>r. ?o = Inr r"
    by (simp add: sample_env_def execute.simps transferOwnership_def onlyOwner_def
        sample_streak_simps)
  then have o: "?o = Inr (fst (projr ?o), snd (projr ?o))"
    by auto
  note at_o = call_completes_or_reverts
         [of "sample_env 1 1700259201" "TransferOwnership 2" sample_streak "Panic 17"
             "fst (projr ?o)" "snd (projr ?o)", unfolded call.case]
  from at_o o
  have h: "transact (sample_env 1 1700259201) (TransferOwnership 2) sample_streak
             = fst (projr ?o)
      \<and> fst (projr ?o) = sample_streak\<lparr>owner := 2\<rparr> \<and> snd (projr ?o) = []"
    by blast
  with o have "?o = Inr (sample_streak\<lparr>owner := 2\<rparr>, [])"
    by metis
  with h have handed: "?o = Inr (sample_streak\<lparr>owner := 2\<rparr>, [])
      \<and> transact (sample_env 1 1700259201) (TransferOwnership 2) sample_streak
          = sample_streak\<lparr>owner := 2\<rparr>"
    by simp
  from refused unpaid r claimed handed show ?thesis by simp
qed

text \<open>
  C8. \<open>withdrawRewardPool\<close>, \<open>emergencyWithdraw\<close> and \<open>transferOwnership\<close> revert with "Only
  owner can call this" for every caller other than the current owner, and the state
  is unchanged; \<open>transferOwnership\<close> called by the owner with a non-zero address sets
  \<open>owner\<close> to that address.
\<close>

theorem admin_only_owner:
  "(msg_sender e \<noteq> owner s \<longrightarrow>
       withdrawRewardPool (msg_sender e) t amount s
         = Inl (Revert ''Only owner can call this'')
     \<and> emergencyWithdraw (msg_sender e) t s
         = Inl (Revert ''Only owner can call this'')
     \<and> transferOwnership (msg_sender e) newOwner s
         = Inl (Revert ''Only owner can call this'')
     \<and> transact e (WithdrawRewardPool amount) s = s
     \<and> transact e EmergencyWithdraw s = s
     \<and> transact e (TransferOwnership newOwner) s = s)
 \<and> (msg_sender e = owner s \<and> newOwner \<noteq> 0 \<longrightarrow>
       transferOwnership (msg_sender e) newOwner s = Inr (s\<lparr>owner := newOwner\<rparr>, [])
     \<and> (msg_value e = 0 \<longrightarrow> owner (transact e (TransferOwnership newOwner) s) = newOwner))"
  by (simp add: withdrawRewardPool_def emergencyWithdraw_def transferOwnership_def
      onlyOwner_def transact_def execute.simps)

text \<open>
  C8, at the sample history: address 5 is not the owner and is refused; the owner,
  address 1, hands the contract to address 2.
\<close>

theorem admin_only_owner_witness:
  "msg_sender (sample_env 5 1700259201) \<noteq> owner sample_streak
 \<and> withdrawRewardPool 5 (recipient_runs 1700259201 (Recipient [] True)) 1 sample_streak
     = Inl (Revert ''Only owner can call this'')
 \<and> emergencyWithdraw 5 (recipient_runs 1700259201 (Recipient [] True)) sample_streak
     = Inl (Revert ''Only owner can call this'')
 \<and> transferOwnership 5 5 sample_streak = Inl (Revert ''Only owner can call this'')
 \<and> transact (sample_env 5 1700259201) EmergencyWithdraw sample_streak = sample_streak
 \<and> owner (transact (sample_env 1 1700259201) (TransferOwnership 2) sample_streak) = 2"
  using admin_only_owner [of "sample_env 5 1700259201" sample_streak
                             "recipient_runs 1700259201 (Recipient [] True)" 1 5]
    admin_only_owner [of "sample_env 1 1700259201" sample_streak _ _ 2]
  by (simp add: sample_env_def sample_streak_simps)

subsection \<open>Solvency\<close>

text \<open>
  The pool stays covered by the balance: through a function, when it is kept by the
  recipient of the function's transfer, and so through a call with all the calls its
  recipients make.
\<close>

lemma dispatch_solvent:
  assumes t: "\<And>x x' nested. t x = Some (x', nested) \<Longrightarrow> unat (rewardPool x) \<le> balance x
                \<Longrightarrow> unat (rewardPool x') \<le> balance x'"
    and r: "dispatch e t c s = Inr (s', fx)" and inv: "unat (rewardPool s) \<le> balance s"
  shows "unat (rewardPool s') \<le> balance s'"
proof (cases c)
  case CheckIn
  with r inv checkIn_Inr(8,9) [of "msg_sender e" "block_timestamp e" s s' fx]
  show ?thesis by simp
next
  case ResetCheckIn
  with r inv resetCheckIn_Inr(4,5) [of "msg_sender e" "block_timestamp e" s s' fx]
  show ?thesis by simp
next
  case (ClaimReward d)
  with r have "claimReward (msg_sender e) t d s = Inr (s', fx)" by simp
  then show ?thesis
  proof (rule claimReward_Inr)
    fix nested
    assume "unat (rewardPool s - REWARD_AMOUNT) + 100000000000000 = unat (rewardPool s)"
      and "100000000000000 \<le> balance s"
      and h: "t (s\<lparr>userCheckIns :=
                 (userCheckIns s)(msg_sender e := (userCheckIns s (msg_sender e))\<lparr>lastClaimedDay := d\<rparr>),
               rewardPool := rewardPool s - REWARD_AMOUNT,
               balance := balance s - 100000000000000\<rparr>) = Some (s', nested)"
    with inv show ?thesis by (intro t [OF h]) simp
  qed
next
  case DepositRewardPool
  with r inv depositRewardPool_Inr(1,4)
    [of "msg_sender e" "msg_value e" "credit (msg_value e) s" s' fx]
  show ?thesis by (simp add: credit_def)
next
  case (WithdrawRewardPool amount)
  with r have "withdrawRewardPool (msg_sender e) t amount s = Inr (s', fx)" by simp
  then show ?thesis
  proof (rule withdrawRewardPool_Inr)
    fix nested
    assume "unat (rewardPool s - amount) + unat amount = unat (rewardPool s)"
      and "unat amount \<le> balance s"
      and h: "t (s\<lparr>rewardPool := rewardPool s - amount,
               balance := balance s - unat amount\<rparr>) = Some (s', nested)"
    with inv show ?thesis by (intro t [OF h]) simp
  qed
next
  case EmergencyWithdraw
  with r have "emergencyWithdraw (msg_sender e) t s = Inr (s', fx)" by simp
  then show ?thesis
  proof (rule emergencyWithdraw_Inr)
    fix nested
    assume h: "t (s\<lparr>rewardPool := 0, balance := 0\<rparr>) = Some (s', nested)"
    show ?thesis by (intro t [OF h]) simp
  qed
next
  case (TransferOwnership n)
  with r inv transferOwnership_Inr(3) [of "msg_sender e" n s s' fx]
  show ?thesis by simp
next
  case Receive
  with r inv receive_Inr(1,4) [of "msg_sender e" "msg_value e" "credit (msg_value e) s" s' fx]
  show ?thesis by (simp add: credit_def)
next
  case Fallback
  with r inv fallback_Inr(1,4) [of "msg_sender e" "msg_value e" "credit (msg_value e) s" s' fx]
  show ?thesis by (simp add: credit_def)
next
  case (View v)
  with r inv view_unchanged [of e t v s s' fx] show ?thesis by simp
qed

lemma calls_solvent:
  "execute e c s = Inr (s', fx) \<Longrightarrow> unat (rewardPool s) \<le> balance s
     \<Longrightarrow> unat (rewardPool s') \<le> balance s'"
  "recipient_runs ts r x = Some (x', nested) \<Longrightarrow> unat (rewardPool x) \<le> balance x
     \<Longrightarrow> unat (rewardPool x') \<le> balance x'"
  "calls_back ts' calls y = (y', fy) \<Longrightarrow> unat (rewardPool y) \<le> balance y
     \<Longrightarrow> unat (rewardPool y') \<le> balance y'"
proof (induction e c s and ts r x and ts' calls y arbitrary: s' fx and x' nested and y' fy
    rule: execute_recipient_runs_calls_back.induct)
  case (1 e c s)
  from "1.prems"(1) have ok: "\<not> (\<not> payable c \<and> msg_value e \<noteq> 0)"
    by (auto simp: execute.simps split: if_splits)
  from execute_Inr [OF "1.prems"(1)] "1.prems"(2) "1.IH" [OF ok] show ?case
    by (rule_tac dispatch_solvent) auto
next
  case (2 timestamp calls ok s)
  then show ?case by (auto split: if_splits)
next
  case (3 timestamp s)
  then show ?case by simp
next
  case (4 timestamp sender v c r calls s)
  let ?e = "\<lparr>msg_sender = sender, msg_value = v, block_timestamp = timestamp, recipient = r\<rparr>"
  show ?case
  proof (cases "execute ?e c s")
    case (Inl err)
    with "4.prems" "4.IH"(2) [OF Inl] show ?thesis by simp
  next
    case (Inr b)
    obtain s1 f1 where b: "b = (s1, f1)" by (cases b)
    from Inr b "4.IH"(1) "4.prems"(2) have "unat (rewardPool s1) \<le> balance s1" by simp
    moreover from Inr b "4.prems"(1) obtain f2 where "calls_back timestamp calls s1 = (y', f2)"
      by (auto split: prod.splits)
    ultimately show ?thesis using "4.IH"(3) [OF Inr b [symmetric]] by simp
  qed
qed

lemma transact_solvent:
  assumes "unat (rewardPool s) \<le> balance s"
  shows "unat (rewardPool (transact e c s)) \<le> balance (transact e c s)"
proof (cases e c s rule: transact_cases)
  case (reverted err)
  with assms show ?thesis by simp
next
  case (returned s' fx)
  from calls_solvent(1) [OF returned(1) assms] returned(3) show ?thesis by simp
qed

lemma reachable_solvent: "reachable s \<Longrightarrow> unat (rewardPool s) \<le> balance s"
proof (induction rule: reachable.induct)
  case (deployed sender v held)
  show ?case by (simp add: constructor_def)
next
  case (called s e c)
  then show ?case by (simp add: transact_solvent)
next
  case (forced s n)
  then show ?case by simp
qed

text \<open>
  C10. In every state reachable from the constructor by any sequence of calls
  (\<^verbatim>\<open>receive\<close> and \<^verbatim>\<open>fallback\<close> deposits, the calls that recipients of transfers make
  while they hold control, and ether forced into the contract included), \<open>rewardPool\<close>
  is at most the contract's balance. So a \<open>claimReward\<close> that passes its three guards,
  and a \<open>withdrawRewardPool\<close> by the owner of at most \<open>rewardPool\<close>, never fail for lack of
  ether: they succeed whenever the recipient accepts the transfer, whatever else the
  recipient does.
\<close>

theorem rewardPool_covered_by_balance:
  assumes "reachable s"
  shows "unat (rewardPool s) \<le> balance s
       \<and> (currentDay mod 2 = 1 \<and> lastClaimedDay (userCheckIns s sender) < currentDay
            \<and> REWARD_AMOUNT \<le> rewardPool s \<longrightarrow>
              (\<exists>r. claimReward sender (recipient_runs timestamp (Recipient calls True))
                      currentDay s = Inr r))
       \<and> (amount \<le> rewardPool s \<longrightarrow>
              (\<exists>r. withdrawRewardPool (owner s) (recipient_runs timestamp (Recipient calls True))
                      amount s = Inr r))"
proof -
  note inv = reachable_solvent [OF assms]
  have runs: "\<exists>x' nested. recipient_runs timestamp (Recipient calls True) x = Some (x', nested)"
    for x
    by (cases "calls_back timestamp calls x") simp
  have claim: "\<exists>r. claimReward sender (recipient_runs timestamp (Recipient calls True))
                      currentDay s = Inr r"
    if g: "currentDay mod 2 = 1 \<and> lastClaimedDay (userCheckIns s sender) < currentDay
            \<and> REWARD_AMOUNT \<le> rewardPool s"
  proof -
    from g have "unat REWARD_AMOUNT \<le> unat (rewardPool s)"
      by (simp add: word_le_nat_alt)
    with inv have b: "100000000000000 \<le> balance s"
      by (simp add: unat_REWARD_AMOUNT)
    from runs obtain x' nested where
      "recipient_runs timestamp (Recipient calls True)
         (s\<lparr>userCheckIns :=
              (userCheckIns s)(sender := (userCheckIns s sender)\<lparr>lastClaimedDay := currentDay\<rparr>),
            rewardPool := rewardPool s - REWARD_AMOUNT,
            balance := balance s - 100000000000000\<rparr>) = Some (x', nested)"
      by blast
    with g b show ?thesis by (simp add: claimReward_succeeds)
  qed
  have withdraw: "\<exists>r. withdrawRewardPool (owner s)
                         (recipient_runs timestamp (Recipient calls True)) amount s = Inr r"
    if g: "amount \<le> rewardPool s"
  proof -
    from g have "unat amount \<le> unat (rewardPool s)"
      by (simp add: word_le_nat_alt)
    with inv have b: "unat amount \<le> balance s" by simp
    from runs obtain x' nested where
      "recipient_runs timestamp (Recipient calls True)
         (s\<lparr>rewardPool := rewardPool s - amount,
            balance := balance s - unat amount\<rparr>) = Some (x', nested)"
      by blast
    with g b show ?thesis by (simp add: withdrawRewardPool_succeeds)
  qed
  from inv claim withdraw show ?thesis by blast
qed

text \<open>
  C10, at the sample history: the state is reachable, its pool is covered, a claim
  for day 1 and a withdrawal of the whole pool by the owner both succeed.
\<close>

theorem rewardPool_covered_by_balance_witness:
  "reachable sample_streak
 \<and> unat (rewardPool sample_streak) \<le> balance sample_streak
 \<and> (\<exists>r. claimReward 5 (recipient_runs 1700259201 (Recipient [] True)) 1 sample_streak = Inr r)
 \<and> (\<exists>r. withdrawRewardPool 1 (recipient_runs 1700259201 (Recipient [] True)) 1000000000000000
            sample_streak = Inr r)"
  using rewardPool_covered_by_balance
          [OF reachable_sample_streak, of 1 5 1700259201 "[]" 1000000000000000]
    reachable_sample_streak
  by (simp add: sample_streak_simps REWARD_AMOUNT_def)

end
